theory Spec2Isabelle
  imports Main
begin

section \<open>Strings\<close>

text \<open>
  Strings are lists of 8-bit characters.  \<open>str.strip()\<close> without argument removes leading
  and trailing whitespace; \<open>str.splitlines()\<close> splits at line boundaries.  The character
  classes below are the ones of Python 3 restricted to the code points a \<open>char\<close> can hold.
\<close>

definition is_space :: "char \<Rightarrow> bool" where
  "is_space c =
     (let n = (of_char c :: nat)
      in (9 \<le> n \<and> n \<le> 13) \<or> (28 \<le> n \<and> n \<le> 32) \<or> n = 133 \<or> n = 160)"

definition strip :: "string \<Rightarrow> string" where
  "strip s = rev (dropWhile is_space (rev (dropWhile is_space s)))"

definition is_linebreak :: "char \<Rightarrow> bool" where
  "is_linebreak c =
     (let n = (of_char c :: nat)
      in (10 \<le> n \<and> n \<le> 13) \<or> (28 \<le> n \<and> n \<le> 30) \<or> n = 133)"

text \<open>
  \<open>splitlines_from line s\<close>: \<open>line\<close> is the part of the current line already read.
  A carriage return followed by a line feed is one boundary; no empty last line is
  produced after a final boundary.
\<close>

fun splitlines_from :: "string \<Rightarrow> string \<Rightarrow> string list" where
  "splitlines_from line [] = (if line = [] then [] else [line])"
| "splitlines_from line [c] =
     (if is_linebreak c then [line] else [line @ [c]])"
| "splitlines_from line (c # d # cs) =
     (if c = CHR 0x0D \<and> d = CHR 0x0A then line # splitlines_from [] cs
      else if is_linebreak c then line # splitlines_from [] (d # cs)
      else splitlines_from (line @ [c]) (d # cs))"

definition splitlines :: "string \<Rightarrow> string list" where
  "splitlines s = splitlines_from [] s"

section \<open>Data model\<close>

text \<open>
  \<open>module.params\<close> after argument parsing, with the types and defaults of the
  \<open>argument_spec\<close> in \<open>main\<close>.  The parameter \<open>apply\<close> is named \<open>apply_flag\<close> here.
  \<open>template\<close> has no default, so it is \<open>None\<close> when absent.
\<close>

record params =
  apply_flag :: bool
  atomic :: bool
  commands :: "string list"
  confirm :: bool
  confirm_no :: bool
  confirm_timeout :: string
  confirm_yes :: bool
  detach :: bool
  save :: bool
  template :: "string option"

record ansible_module =
  params :: params
  check_mode :: bool

text \<open>
  The command executor \<open>module.run_command\<close> is an external collaborator: it takes a
  command line and the state of the device, and returns exit status, stdout and stderr
  together with the new state of the device.
\<close>

type_synonym 'd executor = "string \<Rightarrow> 'd \<Rightarrow> (int \<times> string \<times> string) \<times> 'd"

text \<open>
  Every call of the executor is recorded, with the place in \<open>run_nvue\<close> it was made from:
  line 170 (\<open>Detach\<close>), line 172 (\<open>DiffBefore\<close>), line 138 reached from line 173
  (\<open>Command\<close>), line 174 (\<open>DiffAfter\<close>), line 182 (\<open>Apply\<close>) and line 188 (\<open>Save\<close>).
  The place is only recorded: the executor never sees it.
\<close>

datatype site = Detach | DiffBefore | Command | DiffAfter | Apply | Save

record call =
  site :: site
  cmdline :: string
  rc :: int
  stdout :: string
  stderr :: string

text \<open>
  \<open>module.fail_json\<close> ends the process with the report
  \<open>dict(msg=..., rc=..., stdout=..., stderr=...)\<close>: \<open>ExecutionFailure msg rc stdout stderr\<close>.
  \<open>None.splitlines()\<close> raises \<open>AttributeError\<close>.  \<open>MutuallyExclusive\<close> is the rejection
  by the argument validation.
\<close>

datatype error =
    ExecutionFailure string int string string
  | AttributeError
  | MutuallyExclusive

text \<open>
  A computation runs on the device state and returns its result or the error that ended
  it, the executor calls it made, in order, and the new device state.
\<close>

type_synonym ('d, 'a) session = "'d \<Rightarrow> (error + 'a) \<times> call list \<times> 'd"

definition return :: "'a \<Rightarrow> ('d, 'a) session" where
  "return a d = (Inr a, [], d)"

definition raise :: "error \<Rightarrow> ('d, 'a) session" where
  "raise e d = (Inl e, [], d)"

definition bind :: "('d, 'a) session \<Rightarrow> ('a \<Rightarrow> ('d, 'b) session) \<Rightarrow> ('d, 'b) session" where
  "bind m f d =
     (case m d of
        (Inl e, tr, d') \<Rightarrow> (Inl e, tr, d')
      | (Inr a, tr, d') \<Rightarrow> (case f a d' of (r, tr', d'') \<Rightarrow> (r, tr @ tr', d'')))"

definition lift :: "error + 'a \<Rightarrow> ('d, 'a) session" where
  "lift r = (case r of Inl e \<Rightarrow> raise e | Inr a \<Rightarrow> return a)"

definition outcome :: "(error + 'a) \<times> call list \<times> 'd \<Rightarrow> error + 'a" where
  "outcome x = fst x"

definition trace :: "(error + 'a) \<times> call list \<times> 'd \<Rightarrow> call list" where
  "trace x = fst (snd x)"

definition device :: "(error + 'a) \<times> call list \<times> 'd \<Rightarrow> 'd" where
  "device x = snd (snd x)"

section \<open>The session controller\<close>

definition failed_on_line :: "string \<Rightarrow> string" where
  "failed_on_line command = ''Failed on line '' @ [CHR 0x27] @ command @ [CHR 0x27]"

definition command_helper :: "'d executor \<Rightarrow> site \<Rightarrow> string \<Rightarrow> ('d, string) session" where
  "command_helper run_command st command d =
     (case run_command (''/usr/bin/nv '' @ command) d of
        ((exitstatus, out, err), d') \<Rightarrow>
          (let c = \<lparr>site = st, cmdline = ''/usr/bin/nv '' @ command,
                    rc = exitstatus, stdout = out, stderr = err\<rparr>
           in if exitstatus \<noteq> 0
              then (Inl (ExecutionFailure (failed_on_line command) exitstatus out err), [c], d')
              else (Inr (strip out), [c], d')))"

text \<open>
  \<open>commands_helper\<close> is a generator that \<open>run_nvue\<close> consumes at once with \<open>list(...)\<close>:
  the commands run in order, and the first failure ends the process.
\<close>

fun commands_helper :: "'d executor \<Rightarrow> string list \<Rightarrow> ('d, string list) session" where
  "commands_helper run_command [] = return []"
| "commands_helper run_command (line # rest) =
     (let line = strip line
      in if line = [] then commands_helper run_command rest
         else bind (command_helper run_command Command line) (\<lambda>out.
              bind (commands_helper run_command rest) (\<lambda>outs.
              return (out # outs))))"

definition check_pending :: "'d executor \<Rightarrow> site \<Rightarrow> ('d, string) session" where
  "check_pending run_command st = command_helper run_command st ''config diff''"

text \<open>
  Lines 144 to 146: the command list, or the lines of the template.  An empty command list
  is false in Python, so the template is read then; \<open>None.splitlines()\<close> raises.
\<close>

definition resolve_commands :: "params \<Rightarrow> error + string list" where
  "resolve_commands p =
     (if commands p \<noteq> [] then Inr (commands p)
      else case template p of
             None \<Rightarrow> Inl AttributeError
           | Some t \<Rightarrow> Inr (splitlines t))"

text \<open>Lines 147 to 167: the flags and the options of the apply command.\<close>

definition apply_options_of :: "params \<Rightarrow> string" where
  "apply_options_of p =
     (let apply_options = '''';
          apply_options = (if confirm p then apply_options @ '' --confirm '' @ confirm_timeout p
                           else apply_options);
          apply_options = (if confirm_yes p then apply_options @ '' --confirm-yes''
                           else apply_options);
          apply_options = (if confirm_no p then apply_options @ '' --confirm-no''
                           else apply_options)
      in apply_options)"

definition do_apply_of :: "params \<Rightarrow> bool" where
  "do_apply_of p =
     (let do_apply = apply_flag p;
          do_apply = (if confirm p then True else do_apply);
          do_apply = (if atomic p then True else do_apply)
      in do_apply)"

definition do_detach_of :: "params \<Rightarrow> bool" where
  "do_detach_of p =
     (let do_detach = detach p;
          do_detach = (if atomic p then True else do_detach)
      in do_detach)"

definition run_nvue ::
  "'d executor \<Rightarrow> ansible_module \<Rightarrow> ('d, bool \<times> (string \<times> string) \<times> string list) session" where
  "run_nvue run_command module =
     bind (lift (resolve_commands (params module))) (\<lambda>cmds.
     let do_apply = do_apply_of (params module);
         apply_options = apply_options_of (params module);
         do_detach = do_detach_of (params module);
         do_save = save (params module)
     in
     bind (if do_detach \<or> check_mode module
           then bind (command_helper run_command Detach ''config detach'') (\<lambda>_. return ())
           else return ()) (\<lambda>_.
     bind (check_pending run_command DiffBefore) (\<lambda>before.
     bind (commands_helper run_command cmds) (\<lambda>output.
     bind (check_pending run_command DiffAfter) (\<lambda>after.
     let changed = (before \<noteq> after) in
     bind (if after \<noteq> [] \<and> do_apply \<and> \<not> check_mode module
           then bind (command_helper run_command Apply
                        (''config apply --assume-yes '' @ apply_options)) (\<lambda>ret.
                return (True, if ret \<noteq> [] then output @ [ret] else output))
           else return (changed, output)) (\<lambda>(changed, output).
     bind (if do_save \<and> \<not> check_mode module
           then bind (command_helper run_command Save ''config save'') (\<lambda>ret.
                return (True, if ret \<noteq> [] then output @ [ret] else output))
           else return (changed, output)) (\<lambda>(changed, output).
     return (changed, (before, after), output))))))))"

section \<open>The entry point\<close>

text \<open>
  Modelled from the spec: the arguments as the caller supplied them, before the host's
  argument parser (\<open>AnsibleModule\<close>, which is not part of the repository) has filled in
  defaults.  \<open>None\<close> is a parameter the caller did not give.
\<close>

record arguments =
  arg_apply :: "bool option"
  arg_atomic :: "bool option"
  arg_commands :: "string list option"
  arg_confirm :: "bool option"
  arg_confirm_no :: "bool option"
  arg_confirm_timeout :: "string option"
  arg_confirm_yes :: "bool option"
  arg_detach :: "bool option"
  arg_save :: "bool option"
  arg_template :: "string option"

definition supplied :: "arguments \<Rightarrow> string \<Rightarrow> bool" where
  "supplied a k =
     (if k = ''apply'' then arg_apply a \<noteq> None
      else if k = ''atomic'' then arg_atomic a \<noteq> None
      else if k = ''commands'' then arg_commands a \<noteq> None
      else if k = ''confirm'' then arg_confirm a \<noteq> None
      else if k = ''confirm_no'' then arg_confirm_no a \<noteq> None
      else if k = ''confirm_timeout'' then arg_confirm_timeout a \<noteq> None
      else if k = ''confirm_yes'' then arg_confirm_yes a \<noteq> None
      else if k = ''detach'' then arg_detach a \<noteq> None
      else if k = ''save'' then arg_save a \<noteq> None
      else if k = ''template'' then arg_template a \<noteq> None
      else False)"

text \<open>
  Modelled from the spec: the mutual-exclusion check of the argument validation, which the
  repository leaves to \<open>AnsibleModule\<close>.  A request is rejected when both parameters of a
  pair of the table are supplied.
\<close>

definition check_mutually_exclusive :: "(string \<times> string) list \<Rightarrow> arguments \<Rightarrow> bool" where
  "check_mutually_exclusive terms a = list_ex (\<lambda>(k, k'). supplied a k \<and> supplied a k') terms"

text \<open>The table \<open>mutually_exclusive\<close> of \<open>main\<close>, lines 208 to 218.\<close>

definition mutually_exclusive :: "(string \<times> string) list" where
  "mutually_exclusive =
     [(''commands'', ''template''),
      (''apply'', ''atomic''),
      (''confirm'', ''atomic''),
      (''confirm_no'', ''atomic''),
      (''confirm_yes'', ''atomic''),
      (''confirm_no'', ''confirm_yes''),
      (''confirm'', ''confirm_yes''),
      (''confirm'', ''confirm_no''),
      (''detach'', ''atomic'')]"

text \<open>The defaults of the \<open>argument_spec\<close> of \<open>main\<close>, lines 196 to 205.\<close>

definition with_defaults :: "arguments \<Rightarrow> params" where
  "with_defaults a =
     \<lparr>apply_flag = (case arg_apply a of None \<Rightarrow> False | Some b \<Rightarrow> b),
      atomic = (case arg_atomic a of None \<Rightarrow> False | Some b \<Rightarrow> b),
      commands = (case arg_commands a of None \<Rightarrow> [] | Some cs \<Rightarrow> cs),
      confirm = (case arg_confirm a of None \<Rightarrow> False | Some b \<Rightarrow> b),
      confirm_no = (case arg_confirm_no a of None \<Rightarrow> False | Some b \<Rightarrow> b),
      confirm_timeout = (case arg_confirm_timeout a of None \<Rightarrow> ''10m'' | Some t \<Rightarrow> t),
      confirm_yes = (case arg_confirm_yes a of None \<Rightarrow> False | Some b \<Rightarrow> b),
      detach = (case arg_detach a of None \<Rightarrow> False | Some b \<Rightarrow> b),
      save = (case arg_save a of None \<Rightarrow> False | Some b \<Rightarrow> b),
      template = arg_template a\<rparr>"

text \<open>\<open>module.exit_json(changed=changed, diff=diff, msg=output)\<close>.\<close>

record exit_json =
  exit_changed :: bool
  exit_diff :: "string \<times> string"
  exit_msg :: "string list"

definition main :: "'d executor \<Rightarrow> arguments \<Rightarrow> bool \<Rightarrow> ('d, exit_json) session" where
  "main run_command a check =
     (if check_mutually_exclusive mutually_exclusive a then raise MutuallyExclusive
      else bind (run_nvue run_command \<lparr>params = with_defaults a, check_mode = check\<rparr>)
             (\<lambda>(changed, diff, output).
                return \<lparr>exit_changed = changed, exit_diff = diff, exit_msg = output\<rparr>))"

section \<open>Observations of a run\<close>

text \<open>
  The calls made from one place, whether a place was reached, and the non-empty trimmed
  outputs of the calls made from a place.
\<close>

definition calls_at :: "site \<Rightarrow> (error + 'a) \<times> call list \<times> 'd \<Rightarrow> call list" where
  "calls_at st x = filter (\<lambda>c. site c = st) (trace x)"

definition executed :: "site \<Rightarrow> (error + 'a) \<times> call list \<times> 'd \<Rightarrow> bool" where
  "executed st x = (calls_at st x \<noteq> [])"

definition outputs_at :: "site \<Rightarrow> (error + 'a) \<times> call list \<times> 'd \<Rightarrow> string list" where
  "outputs_at st x = filter (\<lambda>s. s \<noteq> []) (map (\<lambda>c. strip (stdout c)) (calls_at st x))"

text \<open>
  A run is orderly when a call with a non-zero exit status is the last call and the run
  ends with the report of that call, and every other run has only calls with exit
  status zero.
\<close>

fun is_exec_failure :: "error \<Rightarrow> bool" where
  "is_exec_failure (ExecutionFailure m r out err) = True"
| "is_exec_failure AttributeError = False"
| "is_exec_failure MutuallyExclusive = False"

fun is_failure :: "error + 'a \<Rightarrow> bool" where
  "is_failure (Inl e) = is_exec_failure e"
| "is_failure (Inr a) = False"

definition report_of :: "call \<Rightarrow> error" where
  "report_of c =
     ExecutionFailure (failed_on_line (drop 12 (cmdline c))) (rc c) (stdout c) (stderr c)"

definition orderly :: "(error + 'a) \<times> call list \<times> 'd \<Rightarrow> bool" where
  "orderly x =
     (if is_failure (outcome x)
      then trace x \<noteq> [] \<and> (\<forall>c \<in> set (butlast (trace x)). rc c = 0) \<and>
           rc (last (trace x)) \<noteq> 0 \<and>
           take 12 (cmdline (last (trace x))) = ''/usr/bin/nv '' \<and>
           outcome x = Inl (report_of (last (trace x)))
      else \<forall>c \<in> set (trace x). rc c = 0)"

section \<open>The stages of a session\<close>

text \<open>
  The body of \<open>run_nvue\<close> cut at the second diff: \<open>upto_commands\<close> is lines 144 to 173,
  \<open>apply_phase\<close> lines 180 to 184, \<open>save_phase\<close> lines 186 to 190 and \<open>finish\<close> lines 176
  to 192.  Lemmas \<open>run_nvue_split\<close> and \<open>finish_phases\<close> show that \<open>run_nvue\<close> is their
  composition.
\<close>

definition upto_commands ::
  "'d executor \<Rightarrow> ansible_module \<Rightarrow> ('d, string \<times> string list) session" where
  "upto_commands run_command module =
     bind (lift (resolve_commands (params module))) (\<lambda>cmds.
     bind (if do_detach_of (params module) \<or> check_mode module
           then bind (command_helper run_command Detach ''config detach'') (\<lambda>_. return ())
           else return ()) (\<lambda>_.
     bind (check_pending run_command DiffBefore) (\<lambda>before.
     bind (commands_helper run_command cmds) (\<lambda>output.
     return (before, output)))))"

definition finish ::
  "'d executor \<Rightarrow> ansible_module \<Rightarrow> string \<Rightarrow> string list \<Rightarrow> string \<Rightarrow>
   ('d, bool \<times> (string \<times> string) \<times> string list) session" where
  "finish run_command module before output after =
     bind (if after \<noteq> [] \<and> do_apply_of (params module) \<and> \<not> check_mode module
           then bind (command_helper run_command Apply
                        (''config apply --assume-yes '' @ apply_options_of (params module)))
                  (\<lambda>ret. return (True, if ret \<noteq> [] then output @ [ret] else output))
           else return (before \<noteq> after, output)) (\<lambda>(changed, output).
     bind (if save (params module) \<and> \<not> check_mode module
           then bind (command_helper run_command Save ''config save'') (\<lambda>ret.
                return (True, if ret \<noteq> [] then output @ [ret] else output))
           else return (changed, output)) (\<lambda>(changed, output).
     return (changed, (before, after), output)))"

definition apply_phase ::
  "'d executor \<Rightarrow> ansible_module \<Rightarrow> string \<Rightarrow> string list \<Rightarrow> string \<Rightarrow>
   ('d, bool \<times> string list) session" where
  "apply_phase run_command module before output after =
     (if after \<noteq> [] \<and> do_apply_of (params module) \<and> \<not> check_mode module
      then bind (command_helper run_command Apply
                   (''config apply --assume-yes '' @ apply_options_of (params module)))
             (\<lambda>ret. return (True, if ret \<noteq> [] then output @ [ret] else output))
      else return (before \<noteq> after, output))"

definition save_phase ::
  "'d executor \<Rightarrow> ansible_module \<Rightarrow> bool \<Rightarrow> string list \<Rightarrow>
   ('d, bool \<times> string list) session" where
  "save_phase run_command module changed output =
     (if save (params module) \<and> \<not> check_mode module
      then bind (command_helper run_command Save ''config save'') (\<lambda>ret.
           return (True, if ret \<noteq> [] then output @ [ret] else output))
      else return (changed, output))"

definition nonempty_outputs :: "call list \<Rightarrow> string list" where
  "nonempty_outputs tr = filter (\<lambda>s. s \<noteq> []) (map (\<lambda>c. strip (stdout c)) tr)"

section \<open>An example device\<close>

text \<open>
  A small device for concrete runs.  Its state is the list of pending lines: \<open>set\<close>
  commands add a line, detach and apply empty the buffer, the diff prints it, \<open>show\<close>
  commands print a status and leave the buffer alone, and every other command fails with
  exit status 1.
\<close>

definition toy_device :: "string list executor" where
  "toy_device cl buf =
     (if cl = ''/usr/bin/nv config detach'' then ((0, '''', ''''), [])
      else if cl = ''/usr/bin/nv config diff''
        then ((0, concat (map (\<lambda>l. l @ [CHR 0x0A]) buf), ''''), buf)
      else if take 24 cl = ''/usr/bin/nv config apply'' then ((0, ''applied'', ''''), [])
      else if cl = ''/usr/bin/nv config save'' then ((0, ''saved'', ''''), buf)
      else if take 16 cl = ''/usr/bin/nv set '' then ((0, '''', ''''), buf @ [drop 12 cl])
      else if take 17 cl = ''/usr/bin/nv show ''
        then ((0, ''status of '' @ drop 17 cl, ''''), buf)
      else ((1, '''', ''Invalid command''), buf))"

definition default_params :: params where
  "default_params =
     \<lparr>apply_flag = False, atomic = False, commands = [], confirm = False,
      confirm_no = False, confirm_timeout = ''10m'', confirm_yes = False, detach = False,
      save = False, template = None\<rparr>"

definition no_arguments :: arguments where
  "no_arguments =
     \<lparr>arg_apply = None, arg_atomic = None, arg_commands = None, arg_confirm = None,
      arg_confirm_no = None, arg_confirm_timeout = None, arg_confirm_yes = None,
      arg_detach = None, arg_save = None, arg_template = None\<rparr>"

definition m_fail :: ansible_module where
  "m_fail =
     \<lparr>params = default_params
        \<lparr>commands := [''set interface swp1'', ''bogus'', ''set interface swp2'']\<rparr>,
      check_mode = False\<rparr>"

definition m_none :: ansible_module where
  "m_none = \<lparr>params = default_params, check_mode = True\<rparr>"

definition m_show :: ansible_module where
  "m_show =
     \<lparr>params = default_params\<lparr>commands := [''show interface swp1'']\<rparr>,
      check_mode = False\<rparr>"

definition m_check :: ansible_module where
  "m_check =
     \<lparr>params = default_params
        \<lparr>commands := [''set interface swp1''], apply_flag := True, save := True\<rparr>,
      check_mode = True\<rparr>"

definition m_apply :: ansible_module where
  "m_apply =
     \<lparr>params = default_params
        \<lparr>commands := [''set interface swp1'', ''  ''], confirm := True, save := True\<rparr>,
      check_mode = False\<rparr>"

definition m_yes :: ansible_module where
  "m_yes =
     \<lparr>params = default_params\<lparr>commands := [''set interface swp1''], confirm_yes := True\<rparr>,
      check_mode = False\<rparr>"

definition m_atomic :: ansible_module where
  "m_atomic =
     \<lparr>params = default_params
        \<lparr>commands := [''set interface swp1''], atomic := True, save := True\<rparr>,
      check_mode = False\<rparr>"

definition args_apply_atomic :: arguments where
  "args_apply_atomic =
     no_arguments\<lparr>arg_commands := Some [''set interface swp1''], arg_apply := Some True,
                  arg_atomic := Some True\<rparr>"

text \<open>
  The request that the documentation of \<open>atomic\<close> describes, with \<open>detach\<close> and \<open>apply\<close>
  true in place of \<open>atomic\<close>: \<open>atomic_expansion\<close> leaves every other parameter as it is,
  \<open>atomic_expansion_no_save\<close> also switches \<open>save\<close> off.
\<close>

definition atomic_expansion :: "ansible_module \<Rightarrow> ansible_module" where
  "atomic_expansion m =
     m\<lparr>params := (params m)\<lparr>atomic := False, detach := True, apply_flag := True\<rparr>\<rparr>"

definition atomic_expansion_no_save :: "ansible_module \<Rightarrow> ansible_module" where
  "atomic_expansion_no_save m =
     m\<lparr>params := (params m)
          \<lparr>atomic := False, detach := True, apply_flag := True, save := False\<rparr>\<rparr>"

section \<open>Basic facts about sessions\<close>

lemma outcome_return: "outcome (return a d) = Inr a"
  by (simp add: outcome_def return_def)

lemma trace_return: "trace (return a d) = []"
  by (simp add: trace_def return_def)

lemma device_return: "device (return a d) = d"
  by (simp add: device_def return_def)

lemma outcome_raise: "outcome (raise e d) = Inl e"
  by (simp add: outcome_def raise_def)

lemma trace_raise: "trace (raise e d) = []"
  by (simp add: trace_def raise_def)

lemma bind_Inl:
  assumes "outcome (m d) = Inl e"
  shows "outcome (bind m f d) = Inl e" and "trace (bind m f d) = trace (m d)"
    and "device (bind m f d) = device (m d)"
  using assms
  by (auto simp: bind_def outcome_def trace_def device_def split: prod.splits sum.splits)

lemma bind_Inr:
  assumes "outcome (m d) = Inr a"
  shows "outcome (bind m f d) = outcome (f a (device (m d)))"
    and "trace (bind m f d) = trace (m d) @ trace (f a (device (m d)))"
    and "device (bind m f d) = device (f a (device (m d)))"
  using assms
  by (auto simp: bind_def outcome_def trace_def device_def split: prod.splits sum.splits)

section \<open>Every run is orderly\<close>

lemma orderly_return: "orderly (return a d)"
  by (simp add: orderly_def outcome_return trace_return)

lemma orderly_lift_resolve: "orderly (lift (resolve_commands p) d)"
  by (simp add: resolve_commands_def lift_def orderly_def outcome_return trace_return
      outcome_raise trace_raise split: option.splits)

lemma orderly_command_helper: "orderly (command_helper ex st command d)"
  by (simp add: orderly_def command_helper_def outcome_def trace_def Let_def report_of_def
      split: prod.splits)

lemma orderly_bind:
  assumes m: "orderly (m d)" and f: "\<And>a d'. orderly (f a d')"
  shows "orderly (bind m f d)"
proof (cases "outcome (m d)")
  case (Inl e)
  then have "outcome (bind m f d) = Inl e" "trace (bind m f d) = trace (m d)"
    by (simp_all add: bind_Inl [of m d e f])
  with m Inl show ?thesis
    by (auto simp: orderly_def split: if_splits)
next
  case (Inr a)
  let ?y = "f a (device (m d))"
  from Inr m have zeros: "\<forall>c \<in> set (trace (m d)). rc c = 0"
    by (simp add: orderly_def)
  have y: "orderly ?y" by (rule f)
  have o: "outcome (bind m f d) = outcome ?y"
    and t: "trace (bind m f d) = trace (m d) @ trace ?y"
    using Inr by (simp_all add: bind_Inr [of m d a f])
  show ?thesis
  proof (cases "is_failure (outcome ?y)")
    case False
    with y zeros show ?thesis by (auto simp: orderly_def o t)
  next
    case True
    with y have ne: "trace ?y \<noteq> []" by (simp add: orderly_def)
    then have "butlast (trace (m d) @ trace ?y) = trace (m d) @ butlast (trace ?y)"
      and "last (trace (m d) @ trace ?y) = last (trace ?y)"
      by (simp_all add: butlast_append)
    with True y zeros ne show ?thesis
      by (auto simp: orderly_def o t)
  qed
qed

lemma orderly_commands_helper: "orderly (commands_helper ex cmds d)"
proof (induction cmds arbitrary: d)
  case Nil
  show ?case by (simp add: orderly_return)
next
  case (Cons line rest)
  show ?case
    by (simp add: Let_def Cons.IH orderly_bind orderly_command_helper orderly_return)
qed

lemma orderly_run_nvue: "orderly (run_nvue ex m d)"
  unfolding run_nvue_def Let_def check_pending_def
  by (intro orderly_bind orderly_lift_resolve orderly_command_helper
        orderly_commands_helper)
     (simp_all add: orderly_bind orderly_command_helper orderly_return split: prod.splits)

section \<open>The places a run reaches\<close>

lemma bind_return_left: "bind (return a) f = f a"
  by (rule ext) (simp add: bind_def return_def split: prod.splits)

lemma bind_raise_left: "bind (raise e) f = raise e"
  by (rule ext) (simp add: bind_def raise_def)

lemma lift_Inr: "lift (Inr a) = return a"
  by (simp add: lift_def)

lemma lift_Inl: "lift (Inl e) = raise e"
  by (simp add: lift_def)

lemma trace_bind_cases:
  "trace (bind m f d) = trace (m d) \<or>
   (\<exists>a. outcome (m d) = Inr a \<and>
      trace (bind m f d) = trace (m d) @ trace (f a (device (m d))))"
  by (cases "outcome (m d)") (simp_all add: bind_Inl [of m d _ f] bind_Inr [of m d _ f])

lemma trace_bind_hd:
  assumes "trace (m d) \<noteq> []"
  shows "trace (bind m f d) \<noteq> []" and "hd (trace (bind m f d)) = hd (trace (m d))"
  using assms trace_bind_cases [of m f d] by auto

lemma trace_command_helper:
  "\<exists>c. trace (command_helper ex st command d) = [c] \<and> site c = st \<and>
     cmdline c = ''/usr/bin/nv '' @ command"
  by (simp add: command_helper_def trace_def Let_def split: prod.splits)

lemma list_all_bind:
  assumes "list_all P (trace (m d))" and "\<And>a d'. list_all P (trace (f a d'))"
  shows "list_all P (trace (bind m f d))"
  using assms trace_bind_cases [of m f d] by auto

lemma list_all_return: "list_all P (trace (return a d))"
  by (simp add: trace_return)

lemma list_all_lift: "list_all P (trace (lift r d))"
  by (cases r) (simp_all add: lift_def trace_return trace_raise)

lemma list_all_command_helper:
  assumes "\<And>c. site c = st \<Longrightarrow> cmdline c = ''/usr/bin/nv '' @ command \<Longrightarrow> P c"
  shows "list_all P (trace (command_helper ex st command d))"
  using trace_command_helper [of ex st command d] assms by auto

lemma list_all_commands_helper:
  assumes "\<And>c. site c = Command \<Longrightarrow> P c"
  shows "list_all P (trace (commands_helper ex cmds d))"
proof (induction cmds arbitrary: d)
  case Nil
  show ?case by (simp add: trace_return)
next
  case (Cons line rest)
  show ?case
    by (simp add: Let_def Cons.IH list_all_bind list_all_command_helper list_all_return assms)
qed

lemma not_executed_iff: "\<not> executed st x \<longleftrightarrow> list_all (\<lambda>c. site c \<noteq> st) (trace x)"
  by (simp add: executed_def calls_at_def filter_empty_conv list_all_iff)

lemma check_mode_sites:
  assumes "check_mode m"
  shows "list_all (\<lambda>c. site c \<noteq> Apply \<and> site c \<noteq> Save) (trace (run_nvue ex m d))"
  unfolding run_nvue_def Let_def check_pending_def
  using assms
  by (intro list_all_bind list_all_lift list_all_commands_helper)
     (simp_all add: list_all_bind list_all_command_helper list_all_return split: prod.splits)


lemma apply_cmdline:
  "list_all (\<lambda>c. site c = Apply \<longrightarrow>
      cmdline c = ''/usr/bin/nv config apply --assume-yes '' @ apply_options_of (params m))
     (trace (run_nvue ex m d))"
  unfolding run_nvue_def Let_def check_pending_def
  by (intro list_all_bind list_all_lift list_all_commands_helper)
     (simp_all add: list_all_bind list_all_command_helper list_all_return split: prod.splits)

lemma bind_assoc: "bind (bind m f) g = bind m (\<lambda>a. bind (f a) g)"
  by (rule ext) (simp add: bind_def split: prod.splits sum.splits)

lemma run_nvue_split:
  "run_nvue ex m =
     bind (upto_commands ex m) (\<lambda>(before, output).
     bind (check_pending ex DiffAfter) (\<lambda>after. finish ex m before output after))"
  by (simp add: run_nvue_def upto_commands_def finish_def Let_def bind_assoc bind_return_left)

lemma bind_InrE:
  assumes "outcome (bind m f d) = Inr b"
  obtains a where "outcome (m d) = Inr a" "outcome (f a (device (m d))) = Inr b"
    "trace (bind m f d) = trace (m d) @ trace (f a (device (m d)))"
proof (cases "outcome (m d)")
  case (Inl e)
  with assms show ?thesis by (simp add: bind_Inl [of m d e f])
next
  case (Inr a)
  with assms that [of a] show ?thesis by (simp add: bind_Inr [of m d a f])
qed

lemma command_helper_Inr:
  assumes "outcome (command_helper ex st command d) = Inr out"
  shows "\<exists>c. trace (command_helper ex st command d) = [c] \<and> site c = st \<and>
           cmdline c = ''/usr/bin/nv '' @ command \<and> rc c = 0 \<and> out = strip (stdout c)"
  using assms
  by (auto simp: command_helper_def outcome_def trace_def Let_def split: prod.splits if_splits)

lemma command_helper_Inl:
  assumes "outcome (command_helper ex st command d) = Inl e"
  shows "\<exists>c. trace (command_helper ex st command d) = [c] \<and> site c = st \<and> rc c \<noteq> 0"
  using assms
  by (auto simp: command_helper_def outcome_def trace_def Let_def split: prod.splits if_splits)

lemma commands_helper_Inr:
  assumes "outcome (commands_helper ex cmds d) = Inr outs"
  shows "map cmdline (trace (commands_helper ex cmds d)) =
           map (\<lambda>l. ''/usr/bin/nv '' @ strip l) (filter (\<lambda>l. strip l \<noteq> []) cmds) \<and>
         outs = map (\<lambda>c. strip (stdout c)) (trace (commands_helper ex cmds d)) \<and>
         list_all (\<lambda>c. site c = Command) (trace (commands_helper ex cmds d))"
  using assms
proof (induction cmds arbitrary: d outs)
  case Nil
  then show ?case by (simp add: outcome_return trace_return)
next
  case (Cons line rest)
  show ?case
  proof (cases "strip line = []")
    case True
    with Cons show ?thesis by (simp add: Let_def)
  next
    case False
    let ?one = "command_helper ex Command (strip line)"
    let ?k = "\<lambda>out. bind (commands_helper ex rest) (\<lambda>outs. return (out # outs))"
    from False have eq: "commands_helper ex (line # rest) d = bind ?one ?k d"
      by (simp add: Let_def)
    from Cons.prems obtain out where
      one: "outcome (?one d) = Inr out"
      and k: "outcome (?k out (device (?one d))) = Inr outs"
      and t: "trace (bind ?one ?k d) = trace (?one d) @ trace (?k out (device (?one d)))"
      unfolding eq by (rule bind_InrE)
    let ?d1 = "device (?one d)"
    from k obtain outs' where
      r: "outcome (commands_helper ex rest ?d1) = Inr outs'"
      and ret: "outcome (return (out # outs') (device (commands_helper ex rest ?d1))) = Inr outs"
      and t2: "trace (?k out ?d1) = trace (commands_helper ex rest ?d1) @
                 trace (return (out # outs') (device (commands_helper ex rest ?d1)))"
      by (rule bind_InrE)
    from ret have outs: "outs = out # outs'" by (simp add: outcome_return)
    from command_helper_Inr [OF one] obtain c where
      c: "trace (?one d) = [c]" "site c = Command"
      "cmdline c = ''/usr/bin/nv '' @ strip line" "out = strip (stdout c)"
      by blast
    have "trace (bind ?one ?k d) = c # trace (commands_helper ex rest ?d1)"
      by (simp add: t t2 trace_return c(1))
    then have t3: "trace (commands_helper ex (line # rest) d) =
                c # trace (commands_helper ex rest ?d1)"
      by (simp only: eq)
    from Cons.IH [OF r] False c outs show ?thesis
      unfolding t3 by simp
  qed
qed

lemma finish_phases:
  "finish ex m before output after =
     bind (apply_phase ex m before output after) (\<lambda>(changed, output).
     bind (save_phase ex m changed output) (\<lambda>(changed, output).
     return (changed, (before, after), output)))"
  by (simp add: finish_def apply_phase_def save_phase_def)

lemmas unfold_phase =
  bind_def return_def command_helper_def trace_def outcome_def Let_def

lemma apply_phase_trace:
  "list_all (\<lambda>c. site c = Apply) (trace (apply_phase ex m before output after d))"
  "length (trace (apply_phase ex m before output after d)) \<le> 1"
  "trace (apply_phase ex m before output after d) \<noteq> [] \<longleftrightarrow>
     after \<noteq> [] \<and> do_apply_of (params m) \<and> \<not> check_mode m"
  by (simp_all add: apply_phase_def unfold_phase split: prod.splits)

lemma apply_phase_Inr:
  assumes "outcome (apply_phase ex m before output after d) = Inr (changed, out)"
  shows "changed = (before \<noteq> after \<or> trace (apply_phase ex m before output after d) \<noteq> [])"
    and "out = output @ filter (\<lambda>s. s \<noteq> [])
                 (map (\<lambda>c. strip (stdout c)) (trace (apply_phase ex m before output after d)))"
  using assms
  by (auto simp: apply_phase_def unfold_phase split: prod.splits if_splits)

lemma save_phase_trace:
  "list_all (\<lambda>c. site c = Save) (trace (save_phase ex m changed output d))"
  "length (trace (save_phase ex m changed output d)) \<le> 1"
  "trace (save_phase ex m changed output d) \<noteq> [] \<longleftrightarrow> save (params m) \<and> \<not> check_mode m"
  by (simp_all add: save_phase_def unfold_phase split: prod.splits)

lemma save_phase_Inr:
  assumes "outcome (save_phase ex m changed output d) = Inr (changed', out)"
  shows "changed' = (changed \<or> trace (save_phase ex m changed output d) \<noteq> [])"
    and "out = output @ filter (\<lambda>s. s \<noteq> [])
                 (map (\<lambda>c. strip (stdout c)) (trace (save_phase ex m changed output d)))"
  using assms
  by (auto simp: save_phase_def unfold_phase split: prod.splits if_splits)

lemma finish_anatomy:
  "\<exists>tr. trace (finish ex m before output after d) =
          trace (apply_phase ex m before output after d) @ tr \<and>
        list_all (\<lambda>c. site c = Save) tr \<and> length tr \<le> 1 \<and>
        (\<forall>changed diff out.
           outcome (finish ex m before output after d) = Inr (changed, diff, out) \<longrightarrow>
           diff = (before, after) \<and> (tr \<noteq> [] \<longleftrightarrow> save (params m) \<and> \<not> check_mode m) \<and>
           changed = (before \<noteq> after \<or>
                      trace (apply_phase ex m before output after d) \<noteq> [] \<or> tr \<noteq> []) \<and>
           out = output @ nonempty_outputs (trace (apply_phase ex m before output after d)) @
                 nonempty_outputs tr)"
proof -
  let ?a = "apply_phase ex m before output after"
  let ?k = "\<lambda>(changed, output).
     bind (save_phase ex m changed output) (\<lambda>(changed, output).
     return (changed, (before, after), output))"
  have f: "finish ex m before output after d = bind ?a ?k d"
    by (simp add: finish_phases)
  show ?thesis
  proof (cases "outcome (?a d)")
    case (Inl e)
    then have "trace (bind ?a ?k d) = trace (?a d) @ []" "outcome (bind ?a ?k d) = Inl e"
      by (simp_all add: bind_Inl [of ?a d e ?k])
    then show ?thesis
      unfolding f by (intro exI [of _ "[]"]) simp
  next
    case (Inr p)
    obtain ch1 out1 where p: "p = (ch1, out1)" by (cases p)
    let ?s = "save_phase ex m ch1 out1"
    let ?r = "\<lambda>(changed, output). return (changed, (before, after), output)"
    let ?d1 = "device (?a d)"
    from Inr p have a: "outcome (?a d) = Inr (ch1, out1)" by simp
    have t1: "trace (bind ?a ?k d) = trace (?a d) @ trace (bind ?s ?r ?d1)"
      and o1: "outcome (bind ?a ?k d) = outcome (bind ?s ?r ?d1)"
      using bind_Inr [of ?a d "(ch1, out1)" ?k, OF a] by simp_all
    have st: "list_all (\<lambda>c. site c = Save) (trace (?s ?d1))" "length (trace (?s ?d1)) \<le> 1"
      "trace (?s ?d1) \<noteq> [] \<longleftrightarrow> save (params m) \<and> \<not> check_mode m"
      by (rule save_phase_trace)+
    show ?thesis
    proof (cases "outcome (?s ?d1)")
      case (Inl e)
      then have "trace (bind ?s ?r ?d1) = trace (?s ?d1)" "outcome (bind ?s ?r ?d1) = Inl e"
        by (simp_all add: bind_Inl [of ?s ?d1 e ?r])
      with st show ?thesis
        unfolding f t1 o1 by (intro exI [of _ "trace (?s ?d1)"]) simp
    next
      case (Inr q)
      obtain ch2 out2 where q: "q = (ch2, out2)" by (cases q)
      from Inr q have s: "outcome (?s ?d1) = Inr (ch2, out2)" by simp
      have t2: "trace (bind ?s ?r ?d1) = trace (?s ?d1)"
        and o2: "outcome (bind ?s ?r ?d1) = Inr (ch2, (before, after), out2)"
        using bind_Inr [of ?s ?d1 "(ch2, out2)" ?r, OF s]
        by (simp_all add: trace_return outcome_return)
      define tr where "tr = trace (?s ?d1)"
      have of: "outcome (finish ex m before output after d) = Inr (ch2, (before, after), out2)"
        and tf: "trace (finish ex m before output after d) = trace (?a d) @ tr"
        unfolding f t1 o1 t2 o2 tr_def by simp_all
      have ch1: "ch1 = (before \<noteq> after \<or> trace (?a d) \<noteq> [])"
        and out1: "out1 = output @ nonempty_outputs (trace (?a d))"
        using apply_phase_Inr [OF a] by (simp_all add: nonempty_outputs_def)
      have ch2: "ch2 = (ch1 \<or> tr \<noteq> [])" and out2: "out2 = out1 @ nonempty_outputs tr"
        using save_phase_Inr [OF s] by (simp_all add: nonempty_outputs_def tr_def)
      have sv: "list_all (\<lambda>c. site c = Save) tr" "length tr \<le> 1"
        "tr \<noteq> [] \<longleftrightarrow> save (params m) \<and> \<not> check_mode m"
        using st by (simp_all add: tr_def)
      have "\<forall>changed diff out.
           outcome (finish ex m before output after d) = Inr (changed, diff, out) \<longrightarrow>
           diff = (before, after) \<and> (tr \<noteq> [] \<longleftrightarrow> save (params m) \<and> \<not> check_mode m) \<and>
           changed = (before \<noteq> after \<or> trace (?a d) \<noteq> [] \<or> tr \<noteq> []) \<and>
           out = output @ nonempty_outputs (trace (?a d)) @ nonempty_outputs tr"
        using sv(3) by (auto simp: of ch1 ch2 out1 out2)
      with tf sv(1,2) show ?thesis by blast
    qed
  qed
qed

lemma filter_site_none:
  assumes "list_all (\<lambda>c. site c \<noteq> s) tr"
  shows "filter (\<lambda>c. site c = s) tr = []"
  using assms by (simp add: filter_empty_conv list_all_iff)

lemma filter_site_all:
  assumes "list_all (\<lambda>c. site c = s) tr"
  shows "filter (\<lambda>c. site c = s) tr = tr"
  using assms by (simp add: list_all_iff)

lemma list_all_site_other:
  assumes "list_all (\<lambda>c. site c = s) tr" and "s \<noteq> s'"
  shows "list_all (\<lambda>c. site c \<noteq> s') tr"
  using assms by (auto simp: list_all_iff)

lemma upto_commands_sites:
  "list_all (\<lambda>c. site c = Detach \<or> site c = DiffBefore \<or> site c = Command)
     (trace (upto_commands ex m d))"
  unfolding upto_commands_def check_pending_def
  by (intro list_all_bind list_all_lift list_all_commands_helper)
     (simp_all add: list_all_bind list_all_command_helper list_all_return)

lemma upto_commands_no_site:
  assumes "s = DiffAfter \<or> s = Apply \<or> s = Save"
  shows "filter (\<lambda>c. site c = s) (trace (upto_commands ex m d)) = []"
proof -
  have "list_all (\<lambda>c. site c \<noteq> s) (trace (upto_commands ex m d))"
    using upto_commands_sites [of ex m d] assms by (auto simp: list_all_iff)
  then show ?thesis by (rule filter_site_none)
qed

lemma detach_sites:
  "list_all (\<lambda>c. site c = Detach)
     (trace ((if b then bind (command_helper ex Detach ''config detach'') (\<lambda>_. return ())
              else return ()) d))"
  by (simp add: list_all_bind list_all_command_helper list_all_return)

lemma upto_commands_shape:
  assumes ok: "outcome (upto_commands ex m d) = Inr (before, output)"
  shows "\<exists>cmds td cb tc.
           resolve_commands (params m) = Inr cmds \<and>
           trace (upto_commands ex m d) = td @ cb # tc \<and>
           list_all (\<lambda>c. site c = Detach) td \<and>
           site cb = DiffBefore \<and> cmdline cb = ''/usr/bin/nv config diff'' \<and> rc cb = 0 \<and>
           before = strip (stdout cb) \<and>
           list_all (\<lambda>c. site c = Command) tc \<and>
           map cmdline tc =
             map (\<lambda>l. ''/usr/bin/nv '' @ strip l) (filter (\<lambda>l. strip l \<noteq> []) cmds) \<and>
           output = map (\<lambda>c. strip (stdout c)) tc"
proof (cases "resolve_commands (params m)")
  case (Inl e)
  then have "outcome (upto_commands ex m d) = Inl e"
    by (simp add: upto_commands_def lift_Inl bind_raise_left outcome_raise)
  with ok show ?thesis by simp
next
  case (Inr cmds)
  let ?det = "if do_detach_of (params m) \<or> check_mode m
              then bind (command_helper ex Detach ''config detach'') (\<lambda>_. return ())
              else return ()"
  let ?k2 = "\<lambda>before. bind (commands_helper ex cmds) (\<lambda>output. return (before, output))"
  let ?k1 = "\<lambda>_::unit. bind (check_pending ex DiffBefore) ?k2"
  have u: "upto_commands ex m d = bind ?det ?k1 d"
    by (simp add: upto_commands_def Inr lift_Inr bind_return_left)
  from ok obtain a :: unit where
    o1: "outcome (?k1 a (device (?det d))) = Inr (before, output)"
    and t1: "trace (bind ?det ?k1 d) = trace (?det d) @ trace (?k1 a (device (?det d)))"
    unfolding u by (rule bind_InrE)
  let ?d1 = "device (?det d)"
  from o1 obtain b where
    ob: "outcome (check_pending ex DiffBefore ?d1) = Inr b"
    and o2: "outcome (?k2 b (device (check_pending ex DiffBefore ?d1))) = Inr (before, output)"
    and t2: "trace (?k1 a ?d1) = trace (check_pending ex DiffBefore ?d1) @
               trace (?k2 b (device (check_pending ex DiffBefore ?d1)))"
    by (rule bind_InrE)
  let ?d2 = "device (check_pending ex DiffBefore ?d1)"
  from o2 obtain outs where
    oc: "outcome (commands_helper ex cmds ?d2) = Inr outs"
    and o3: "outcome (return (b, outs) (device (commands_helper ex cmds ?d2))) =
               Inr (before, output)"
    and t3: "trace (?k2 b ?d2) = trace (commands_helper ex cmds ?d2) @
               trace (return (b, outs) (device (commands_helper ex cmds ?d2)))"
    by (rule bind_InrE)
  define tc where "tc = trace (commands_helper ex cmds ?d2)"
  define td where "td = trace (?det d)"
  from o3 have outs: "output = outs" and bb: "before = b"
    by (simp_all add: outcome_return)
  from command_helper_Inr [OF ob [unfolded check_pending_def]] obtain cb where
    cb: "trace (check_pending ex DiffBefore ?d1) = [cb]" "site cb = DiffBefore"
    "cmdline cb = ''/usr/bin/nv config diff''" "rc cb = 0" "b = strip (stdout cb)"
    by (auto simp: check_pending_def)
  have tr: "trace (upto_commands ex m d) = td @ cb # tc"
    unfolding u t1 t2 t3 cb(1) tc_def td_def by (simp add: trace_return)
  have det: "list_all (\<lambda>c. site c = Detach) td"
    unfolding td_def by (rule detach_sites)
  from commands_helper_Inr [OF oc] have
    c1: "map cmdline tc =
           map (\<lambda>l. ''/usr/bin/nv '' @ strip l) (filter (\<lambda>l. strip l \<noteq> []) cmds)"
    and c2: "outs = map (\<lambda>c. strip (stdout c)) tc"
    and c3: "list_all (\<lambda>c. site c = Command) tc"
    by (simp_all add: tc_def)
  from cb(5) bb have b': "before = strip (stdout cb)" by (simp only:)
  from c2 outs have o': "output = map (\<lambda>c. strip (stdout c)) tc" by (simp only:)
  from Inr tr det cb(2,3,4) b' c3 c1 o' show ?thesis by blast
qed

lemma upto_commands_Inr:
  assumes ok: "outcome (upto_commands ex m d) = Inr (before, output)"
  shows "\<exists>cmds. resolve_commands (params m) = Inr cmds \<and>
           map cmdline (filter (\<lambda>c. site c = Command) (trace (upto_commands ex m d))) =
             map (\<lambda>l. ''/usr/bin/nv '' @ strip l) (filter (\<lambda>l. strip l \<noteq> []) cmds) \<and>
           output = map (\<lambda>c. strip (stdout c))
                      (filter (\<lambda>c. site c = Command) (trace (upto_commands ex m d)))"
proof -
  from upto_commands_shape [OF ok] obtain cmds td cb tc where
    r: "resolve_commands (params m) = Inr cmds"
    and tr: "trace (upto_commands ex m d) = td @ cb # tc"
    and td: "list_all (\<lambda>c. site c = Detach) td"
    and cb: "site cb = DiffBefore"
    and tc: "list_all (\<lambda>c. site c = Command) tc"
    and c1: "map cmdline tc =
           map (\<lambda>l. ''/usr/bin/nv '' @ strip l) (filter (\<lambda>l. strip l \<noteq> []) cmds)"
    and c2: "output = map (\<lambda>c. strip (stdout c)) tc"
    by blast
  have det: "filter (\<lambda>c. site c = Command) td = []"
    by (rule filter_site_none, rule list_all_site_other, rule td) simp
  have "filter (\<lambda>c. site c = Command) (trace (upto_commands ex m d)) = tc"
    unfolding tr using det cb filter_site_all [OF tc] by simp
  with r c1 c2 show ?thesis by simp
qed

lemma run_nvue_cases:
  obtains
    (early) e where
      "outcome (run_nvue ex m d) = Inl e"
      "trace (run_nvue ex m d) = trace (upto_commands ex m d)"
  | (no_diff) e ca where
      "outcome (run_nvue ex m d) = Inl e"
      "trace (run_nvue ex m d) = trace (upto_commands ex m d) @ [ca]"
      "site ca = DiffAfter" "rc ca \<noteq> 0"
  | (finished) b outs ca d' where
      "outcome (upto_commands ex m d) = Inr (b, outs)"
      "site ca = DiffAfter" "rc ca = 0"
      "trace (run_nvue ex m d) =
         trace (upto_commands ex m d) @ ca # trace (finish ex m b outs (strip (stdout ca)) d')"
      "outcome (run_nvue ex m d) = outcome (finish ex m b outs (strip (stdout ca)) d')"
      "cmdline ca = ''/usr/bin/nv config diff''"
proof -
  let ?u = "upto_commands ex m"
  let ?k = "\<lambda>(before, output).
     bind (check_pending ex DiffAfter) (\<lambda>after. finish ex m before output after)"
  have x: "run_nvue ex m d = bind ?u ?k d"
    by (simp add: run_nvue_split)
  show ?thesis
  proof (cases "outcome (?u d)")
    case (Inl e)
    then have "outcome (bind ?u ?k d) = Inl e" "trace (bind ?u ?k d) = trace (?u d)"
      by (simp_all add: bind_Inl [of ?u d e ?k])
    then show ?thesis
      using early [of e] unfolding x by simp
  next
    case (Inr p)
    obtain b outs where p: "p = (b, outs)" by (cases p)
    from Inr p have u: "outcome (?u d) = Inr (b, outs)" by simp
    let ?cp = "check_pending ex DiffAfter"
    let ?f = "\<lambda>after. finish ex m b outs after"
    let ?d1 = "device (?u d)"
    have o1: "outcome (bind ?u ?k d) = outcome (bind ?cp ?f ?d1)"
      and t1: "trace (bind ?u ?k d) = trace (?u d) @ trace (bind ?cp ?f ?d1)"
      using bind_Inr [of ?u d "(b, outs)" ?k, OF u] by simp_all
    show ?thesis
    proof (cases "outcome (?cp ?d1)")
      case (Inl e)
      from command_helper_Inl [OF Inl [unfolded check_pending_def]] obtain ca where
        ca: "trace (?cp ?d1) = [ca]" "site ca = DiffAfter" "rc ca \<noteq> 0"
        by (auto simp: check_pending_def)
      from Inl have "outcome (bind ?cp ?f ?d1) = Inl e"
        "trace (bind ?cp ?f ?d1) = trace (?cp ?d1)"
        by (simp_all add: bind_Inl [of ?cp ?d1 e ?f])
      then show ?thesis
        using no_diff [of e ca] ca unfolding x o1 t1 by simp
    next
      case (Inr after)
      from command_helper_Inr [OF Inr [unfolded check_pending_def]] obtain ca where
        ca: "trace (?cp ?d1) = [ca]" "site ca = DiffAfter" "rc ca = 0"
        "after = strip (stdout ca)" "cmdline ca = ''/usr/bin/nv config diff''"
        by (auto simp: check_pending_def)
      have "outcome (bind ?cp ?f ?d1) = outcome (?f after (device (?cp ?d1)))"
        "trace (bind ?cp ?f ?d1) = trace (?cp ?d1) @ trace (?f after (device (?cp ?d1)))"
        using bind_Inr [of ?cp ?d1 after ?f, OF Inr] by simp_all
      then show ?thesis
        using finished [of b outs ca "device (?cp ?d1)"] u ca unfolding x o1 t1
        by simp
    qed
  qed
qed

lemma finished_calls:
  assumes t: "trace x = tu @ ca # ta @ ts"
    and u: "list_all (\<lambda>c. site c = Detach \<or> site c = DiffBefore \<or> site c = Command) tu"
    and ca: "site ca = DiffAfter"
    and a: "list_all (\<lambda>c. site c = Apply) ta"
    and s: "list_all (\<lambda>c. site c = Save) ts"
  shows "calls_at Command x = filter (\<lambda>c. site c = Command) tu"
    and "calls_at DiffAfter x = [ca]"
    and "calls_at Apply x = ta"
    and "calls_at Save x = ts"
proof -
  have u': "filter (\<lambda>c. site c = DiffAfter) tu = []" "filter (\<lambda>c. site c = Apply) tu = []"
    "filter (\<lambda>c. site c = Save) tu = []"
    using u by (auto simp: filter_empty_conv list_all_iff)
  have a': "filter (\<lambda>c. site c = Command) ta = []" "filter (\<lambda>c. site c = DiffAfter) ta = []"
    "filter (\<lambda>c. site c = Save) ta = []" "filter (\<lambda>c. site c = Apply) ta = ta"
    using a by (auto simp: filter_empty_conv list_all_iff)
  have s': "filter (\<lambda>c. site c = Command) ts = []" "filter (\<lambda>c. site c = DiffAfter) ts = []"
    "filter (\<lambda>c. site c = Apply) ts = []" "filter (\<lambda>c. site c = Save) ts = ts"
    using s by (auto simp: filter_empty_conv list_all_iff)
  show "calls_at Command x = filter (\<lambda>c. site c = Command) tu"
    by (simp add: calls_at_def t ca a' s')
  show "calls_at DiffAfter x = [ca]"
    by (simp add: calls_at_def t ca u' a' s')
  show "calls_at Apply x = ta"
    by (simp add: calls_at_def t ca u' a' s')
  show "calls_at Save x = ts"
    by (simp add: calls_at_def t ca u' a' s')
qed

lemma run_nvue_executed_Apply:
  "executed Apply (run_nvue ex m d) \<longleftrightarrow>
     do_apply_of (params m) \<and> \<not> check_mode m \<and>
     (\<exists>c \<in> set (calls_at DiffAfter (run_nvue ex m d)). rc c = 0 \<and> strip (stdout c) \<noteq> [])"
proof (cases rule: run_nvue_cases [of ex m d])
  case (early e)
  then show ?thesis
    by (simp add: executed_def calls_at_def upto_commands_no_site)
next
  case (no_diff e ca)
  then show ?thesis
    by (simp add: executed_def calls_at_def upto_commands_no_site)
next
  case (finished b outs ca d')
  obtain ts where f: "trace (finish ex m b outs (strip (stdout ca)) d') =
      trace (apply_phase ex m b outs (strip (stdout ca)) d') @ ts"
    and ts: "list_all (\<lambda>c. site c = Save) ts"
    using finish_anatomy [of ex m b outs "strip (stdout ca)" d'] by blast
  let ?ta = "trace (apply_phase ex m b outs (strip (stdout ca)) d')"
  have t: "trace (run_nvue ex m d) = trace (upto_commands ex m d) @ ca # ?ta @ ts"
    using finished(4) f by simp
  have calls: "calls_at DiffAfter (run_nvue ex m d) = [ca]"
    "calls_at Apply (run_nvue ex m d) = ?ta"
    using finished_calls [OF t upto_commands_sites finished(2) apply_phase_trace(1) ts]
    by simp_all
  show ?thesis
    using apply_phase_trace(3) [of ex m b outs "strip (stdout ca)" d'] finished(3)
    by (auto simp: executed_def calls)
qed

lemma run_nvue_Inr:
  assumes ok: "outcome (run_nvue ex m d) = Inr (changed, (before, after), output)"
  shows "\<exists>cmds. resolve_commands (params m) = Inr cmds \<and>
           map cmdline (calls_at Command (run_nvue ex m d)) =
             map (\<lambda>l. ''/usr/bin/nv '' @ strip l) (filter (\<lambda>l. strip l \<noteq> []) cmds)"
    and "output = map (\<lambda>c. strip (stdout c)) (calls_at Command (run_nvue ex m d)) @
           outputs_at Apply (run_nvue ex m d) @ outputs_at Save (run_nvue ex m d)"
    and "length (calls_at Apply (run_nvue ex m d)) \<le> 1"
    and "length (calls_at Save (run_nvue ex m d)) \<le> 1"
    and "changed = (before \<noteq> after \<or> executed Apply (run_nvue ex m d) \<or>
           executed Save (run_nvue ex m d))"
    and "executed Apply (run_nvue ex m d) \<longleftrightarrow>
           after \<noteq> [] \<and> do_apply_of (params m) \<and> \<not> check_mode m"
    and "executed Save (run_nvue ex m d) \<longleftrightarrow> save (params m) \<and> \<not> check_mode m"
proof -
  from ok obtain b outs ca d' where
    u: "outcome (upto_commands ex m d) = Inr (b, outs)"
    and ca: "site ca = DiffAfter"
    and tx: "trace (run_nvue ex m d) =
         trace (upto_commands ex m d) @ ca # trace (finish ex m b outs (strip (stdout ca)) d')"
    and ox: "outcome (run_nvue ex m d) = outcome (finish ex m b outs (strip (stdout ca)) d')"
    by (cases rule: run_nvue_cases [of ex m d]) simp_all
  let ?ta = "trace (apply_phase ex m b outs (strip (stdout ca)) d')"
  obtain ts where f: "trace (finish ex m b outs (strip (stdout ca)) d') = ?ta @ ts"
    and ts: "list_all (\<lambda>c. site c = Save) ts" "length ts \<le> 1"
    and res: "\<And>changed diff out.
       outcome (finish ex m b outs (strip (stdout ca)) d') = Inr (changed, diff, out) \<Longrightarrow>
       diff = (b, strip (stdout ca)) \<and> (ts \<noteq> [] \<longleftrightarrow> save (params m) \<and> \<not> check_mode m) \<and>
       changed = (b \<noteq> strip (stdout ca) \<or> ?ta \<noteq> [] \<or> ts \<noteq> []) \<and>
       out = outs @ nonempty_outputs ?ta @ nonempty_outputs ts"
    using finish_anatomy [of ex m b outs "strip (stdout ca)" d'] by blast
  from res [of changed "(before, after)" "output"] ok ox have
    ba: "before = b" "after = strip (stdout ca)"
    and sv: "ts \<noteq> [] \<longleftrightarrow> save (params m) \<and> \<not> check_mode m"
    and ch: "changed = (b \<noteq> strip (stdout ca) \<or> ?ta \<noteq> [] \<or> ts \<noteq> [])"
    and out: "output = outs @ nonempty_outputs ?ta @ nonempty_outputs ts"
    by simp_all
  have t: "trace (run_nvue ex m d) = trace (upto_commands ex m d) @ ca # ?ta @ ts"
    using tx f by simp
  have calls:
    "calls_at Command (run_nvue ex m d) =
       filter (\<lambda>c. site c = Command) (trace (upto_commands ex m d))"
    "calls_at Apply (run_nvue ex m d) = ?ta"
    "calls_at Save (run_nvue ex m d) = ts"
    using finished_calls [OF t upto_commands_sites ca apply_phase_trace(1) ts(1)]
    by simp_all
  from upto_commands_Inr [OF u] obtain cmds where
    r: "resolve_commands (params m) = Inr cmds"
    and c1: "map cmdline (filter (\<lambda>c. site c = Command) (trace (upto_commands ex m d))) =
           map (\<lambda>l. ''/usr/bin/nv '' @ strip l) (filter (\<lambda>l. strip l \<noteq> []) cmds)"
    and c2: "outs = map (\<lambda>c. strip (stdout c))
                      (filter (\<lambda>c. site c = Command) (trace (upto_commands ex m d)))"
    by blast
  show "\<exists>cmds. resolve_commands (params m) = Inr cmds \<and>
           map cmdline (calls_at Command (run_nvue ex m d)) =
             map (\<lambda>l. ''/usr/bin/nv '' @ strip l) (filter (\<lambda>l. strip l \<noteq> []) cmds)"
    using r c1 by (simp add: calls)
  show "output = map (\<lambda>c. strip (stdout c)) (calls_at Command (run_nvue ex m d)) @
           outputs_at Apply (run_nvue ex m d) @ outputs_at Save (run_nvue ex m d)"
    using out c2 by (simp add: outputs_at_def calls nonempty_outputs_def)
  show "length (calls_at Apply (run_nvue ex m d)) \<le> 1"
    using apply_phase_trace(2) [of ex m b outs "strip (stdout ca)" d'] by (simp add: calls)
  show "length (calls_at Save (run_nvue ex m d)) \<le> 1"
    using ts(2) by (simp add: calls)
  show "changed = (before \<noteq> after \<or> executed Apply (run_nvue ex m d) \<or>
           executed Save (run_nvue ex m d))"
    using ch by (simp add: executed_def calls ba)
  show "executed Apply (run_nvue ex m d) \<longleftrightarrow>
           after \<noteq> [] \<and> do_apply_of (params m) \<and> \<not> check_mode m"
    using apply_phase_trace(3) [of ex m b outs "strip (stdout ca)" d']
    by (simp add: executed_def calls ba)
  show "executed Save (run_nvue ex m d) \<longleftrightarrow> save (params m) \<and> \<not> check_mode m"
    using sv by (simp add: executed_def calls)
qed

lemma filter_by_sites:
  assumes d: "list_all (\<lambda>c. site c = Detach) td"
    and cb: "site cb = DiffBefore"
    and c: "list_all (\<lambda>c. site c = Command) tc"
    and ca: "site ca = DiffAfter"
    and a: "list_all (\<lambda>c. site c = Apply) ta"
    and s: "list_all (\<lambda>c. site c = Save) ts"
  shows "filter (\<lambda>c. site c = Detach) (td @ cb # tc @ ca # ta @ ts) = td"
    and "filter (\<lambda>c. site c = DiffBefore) (td @ cb # tc @ ca # ta @ ts) = [cb]"
    and "filter (\<lambda>c. site c = Command) (td @ cb # tc @ ca # ta @ ts) = tc"
    and "filter (\<lambda>c. site c = DiffAfter) (td @ cb # tc @ ca # ta @ ts) = [ca]"
    and "filter (\<lambda>c. site c = Apply) (td @ cb # tc @ ca # ta @ ts) = ta"
    and "filter (\<lambda>c. site c = Save) (td @ cb # tc @ ca # ta @ ts) = ts"
proof -
  have d': "filter (\<lambda>c. site c = Detach) td = td" "filter (\<lambda>c. site c = DiffBefore) td = []"
    "filter (\<lambda>c. site c = Command) td = []" "filter (\<lambda>c. site c = DiffAfter) td = []"
    "filter (\<lambda>c. site c = Apply) td = []" "filter (\<lambda>c. site c = Save) td = []"
    using d by (auto simp: filter_empty_conv list_all_iff)
  have c': "filter (\<lambda>c. site c = Detach) tc = []" "filter (\<lambda>c. site c = DiffBefore) tc = []"
    "filter (\<lambda>c. site c = Command) tc = tc" "filter (\<lambda>c. site c = DiffAfter) tc = []"
    "filter (\<lambda>c. site c = Apply) tc = []" "filter (\<lambda>c. site c = Save) tc = []"
    using c by (auto simp: filter_empty_conv list_all_iff)
  have a': "filter (\<lambda>c. site c = Detach) ta = []" "filter (\<lambda>c. site c = DiffBefore) ta = []"
    "filter (\<lambda>c. site c = Command) ta = []" "filter (\<lambda>c. site c = DiffAfter) ta = []"
    "filter (\<lambda>c. site c = Apply) ta = ta" "filter (\<lambda>c. site c = Save) ta = []"
    using a by (auto simp: filter_empty_conv list_all_iff)
  have s': "filter (\<lambda>c. site c = Detach) ts = []" "filter (\<lambda>c. site c = DiffBefore) ts = []"
    "filter (\<lambda>c. site c = Command) ts = []" "filter (\<lambda>c. site c = DiffAfter) ts = []"
    "filter (\<lambda>c. site c = Apply) ts = []" "filter (\<lambda>c. site c = Save) ts = ts"
    using s by (auto simp: filter_empty_conv list_all_iff)
  show "filter (\<lambda>c. site c = Detach) (td @ cb # tc @ ca # ta @ ts) = td"
    by (simp add: cb ca d' c' a' s')
  show "filter (\<lambda>c. site c = DiffBefore) (td @ cb # tc @ ca # ta @ ts) = [cb]"
    by (simp add: cb ca d' c' a' s')
  show "filter (\<lambda>c. site c = Command) (td @ cb # tc @ ca # ta @ ts) = tc"
    by (simp add: cb ca d' c' a' s')
  show "filter (\<lambda>c. site c = DiffAfter) (td @ cb # tc @ ca # ta @ ts) = [ca]"
    by (simp add: cb ca d' c' a' s')
  show "filter (\<lambda>c. site c = Apply) (td @ cb # tc @ ca # ta @ ts) = ta"
    by (simp add: cb ca d' c' a' s')
  show "filter (\<lambda>c. site c = Save) (td @ cb # tc @ ca # ta @ ts) = ts"
    by (simp add: cb ca d' c' a' s')
qed

lemma run_nvue_Inr_diffs:
  assumes ok: "outcome (run_nvue ex m d) = Inr (changed, (before, after), output)"
  shows "\<exists>cb ca.
           calls_at DiffBefore (run_nvue ex m d) = [cb] \<and>
           calls_at DiffAfter (run_nvue ex m d) = [ca] \<and>
           cmdline cb = ''/usr/bin/nv config diff'' \<and>
           cmdline ca = ''/usr/bin/nv config diff'' \<and>
           rc cb = 0 \<and> rc ca = 0 \<and>
           before = strip (stdout cb) \<and> after = strip (stdout ca) \<and>
           trace (run_nvue ex m d) =
             calls_at Detach (run_nvue ex m d) @ cb # calls_at Command (run_nvue ex m d) @
             ca # calls_at Apply (run_nvue ex m d) @ calls_at Save (run_nvue ex m d)"
proof -
  from ok obtain b outs ca d' where
    u: "outcome (upto_commands ex m d) = Inr (b, outs)"
    and ca: "site ca = DiffAfter" "rc ca = 0" "cmdline ca = ''/usr/bin/nv config diff''"
    and tx: "trace (run_nvue ex m d) =
         trace (upto_commands ex m d) @ ca # trace (finish ex m b outs (strip (stdout ca)) d')"
    and ox: "outcome (run_nvue ex m d) = outcome (finish ex m b outs (strip (stdout ca)) d')"
    by (cases rule: run_nvue_cases [of ex m d]) simp_all
  define ta where "ta = trace (apply_phase ex m b outs (strip (stdout ca)) d')"
  obtain ts where f: "trace (finish ex m b outs (strip (stdout ca)) d') = ta @ ts"
    and ts: "list_all (\<lambda>c. site c = Save) ts"
    and res: "\<And>changed diff out.
       outcome (finish ex m b outs (strip (stdout ca)) d') = Inr (changed, diff, out) \<Longrightarrow>
       diff = (b, strip (stdout ca))"
    using finish_anatomy [of ex m b outs "strip (stdout ca)" d'] unfolding ta_def by blast
  from res [of changed "(before, after)" "output"] ok ox have
    ba: "before = b" "after = strip (stdout ca)"
    by simp_all
  have ta: "list_all (\<lambda>c. site c = Apply) ta"
    unfolding ta_def by (rule apply_phase_trace(1))
  from upto_commands_shape [OF u] obtain td cb tc where
    tu: "trace (upto_commands ex m d) = td @ cb # tc"
    and td: "list_all (\<lambda>c. site c = Detach) td"
    and cb: "site cb = DiffBefore" "cmdline cb = ''/usr/bin/nv config diff''" "rc cb = 0"
      "b = strip (stdout cb)"
    and tc: "list_all (\<lambda>c. site c = Command) tc"
    by blast
  have t: "trace (run_nvue ex m d) = td @ cb # tc @ ca # ta @ ts"
    unfolding tx tu f by simp
  note fs = filter_by_sites [OF td cb(1) tc ca(1) ta ts]
  have calls: "calls_at Detach (run_nvue ex m d) = td"
    "calls_at DiffBefore (run_nvue ex m d) = [cb]"
    "calls_at Command (run_nvue ex m d) = tc"
    "calls_at DiffAfter (run_nvue ex m d) = [ca]"
    "calls_at Apply (run_nvue ex m d) = ta"
    "calls_at Save (run_nvue ex m d) = ts"
    unfolding calls_at_def t by (rule fs)+
  have "trace (run_nvue ex m d) =
      calls_at Detach (run_nvue ex m d) @ cb # calls_at Command (run_nvue ex m d) @
      ca # calls_at Apply (run_nvue ex m d) @ calls_at Save (run_nvue ex m d)"
    unfolding calls by (rule t)
  moreover have "before = strip (stdout cb)" using ba(1) cb(4) by simp
  ultimately show ?thesis
    using calls(2,4) cb(2,3) ca(2,3) ba(2) by blast
qed

lemma do_apply_of_flags:
  "do_apply_of p \<longleftrightarrow> apply_flag p \<or> confirm p \<or> atomic p"
  by (simp add: do_apply_of_def)

section \<open>The argument validation\<close>

lemma supplied_simps:
  "supplied a ''apply'' = (arg_apply a \<noteq> None)"
  "supplied a ''atomic'' = (arg_atomic a \<noteq> None)"
  "supplied a ''commands'' = (arg_commands a \<noteq> None)"
  "supplied a ''confirm'' = (arg_confirm a \<noteq> None)"
  "supplied a ''confirm_no'' = (arg_confirm_no a \<noteq> None)"
  "supplied a ''confirm_yes'' = (arg_confirm_yes a \<noteq> None)"
  "supplied a ''detach'' = (arg_detach a \<noteq> None)"
  "supplied a ''template'' = (arg_template a \<noteq> None)"
  by (simp_all add: supplied_def)

lemma mutually_exclusive_pairs:
  "check_mutually_exclusive mutually_exclusive a \<longleftrightarrow>
      (arg_commands a \<noteq> None \<and> arg_template a \<noteq> None) \<or>
      (arg_apply a \<noteq> None \<and> arg_atomic a \<noteq> None) \<or>
      (arg_confirm a \<noteq> None \<and> arg_atomic a \<noteq> None) \<or>
      (arg_confirm_no a \<noteq> None \<and> arg_atomic a \<noteq> None) \<or>
      (arg_confirm_yes a \<noteq> None \<and> arg_atomic a \<noteq> None) \<or>
      (arg_confirm_no a \<noteq> None \<and> arg_confirm_yes a \<noteq> None) \<or>
      (arg_confirm a \<noteq> None \<and> arg_confirm_yes a \<noteq> None) \<or>
      (arg_confirm a \<noteq> None \<and> arg_confirm_no a \<noteq> None) \<or>
      (arg_detach a \<noteq> None \<and> arg_atomic a \<noteq> None)"
  unfolding check_mutually_exclusive_def mutually_exclusive_def
  by (simp only: list_ex_Nil_iff list_ex_Cons_iff case_prod_conv supplied_simps simp_thms)

section \<open>Concrete runs on the example device\<close>

lemmas eval_defs =
  run_nvue_def bind_def return_def raise_def lift_def resolve_commands_def
  default_params_def command_helper_def check_pending_def toy_device_def do_apply_of_def
  do_detach_of_def apply_options_of_def strip_def is_space_def trace_def outcome_def
  device_def failed_on_line_def calls_at_def executed_def outputs_at_def Let_def

lemma run_m_fail:
  "run_nvue toy_device m_fail [] =
     (Inl (ExecutionFailure (failed_on_line ''bogus'') 1 '''' ''Invalid command''),
      [\<lparr>site = DiffBefore, cmdline = ''/usr/bin/nv config diff'', rc = 0, stdout = '''',
         stderr = ''''\<rparr>,
       \<lparr>site = Command, cmdline = ''/usr/bin/nv set interface swp1'', rc = 0, stdout = '''',
         stderr = ''''\<rparr>,
       \<lparr>site = Command, cmdline = ''/usr/bin/nv bogus'', rc = 1, stdout = '''',
         stderr = ''Invalid command''\<rparr>],
      [''set interface swp1''])"
  by (simp add: eval_defs m_fail_def)

lemma run_m_check:
  "run_nvue toy_device m_check [''old''] =
     (Inr (True, ([], ''set interface swp1''), [[]]),
      [\<lparr>site = Detach, cmdline = ''/usr/bin/nv config detach'', rc = 0, stdout = [],
         stderr = []\<rparr>,
       \<lparr>site = DiffBefore, cmdline = ''/usr/bin/nv config diff'', rc = 0, stdout = [],
         stderr = []\<rparr>,
       \<lparr>site = Command, cmdline = ''/usr/bin/nv set interface swp1'', rc = 0, stdout = [],
         stderr = []\<rparr>,
       \<lparr>site = DiffAfter, cmdline = ''/usr/bin/nv config diff'', rc = 0,
         stdout = ''set interface swp1'' @ [CHR 0x0A], stderr = []\<rparr>],
      [''set interface swp1''])"
  by (simp add: eval_defs m_check_def)

lemma run_m_apply:
  "run_nvue toy_device m_apply [] =
     (Inr (True, ([], ''set interface swp1''), [[], ''applied'', ''saved'']),
      [\<lparr>site = DiffBefore, cmdline = ''/usr/bin/nv config diff'', rc = 0, stdout = [],
         stderr = []\<rparr>,
       \<lparr>site = Command, cmdline = ''/usr/bin/nv set interface swp1'', rc = 0, stdout = [],
         stderr = []\<rparr>,
       \<lparr>site = DiffAfter, cmdline = ''/usr/bin/nv config diff'', rc = 0,
         stdout = ''set interface swp1'' @ [CHR 0x0A], stderr = []\<rparr>,
       \<lparr>site = Apply, cmdline = ''/usr/bin/nv config apply --assume-yes  --confirm 10m'',
         rc = 0, stdout = ''applied'', stderr = []\<rparr>,
       \<lparr>site = Save, cmdline = ''/usr/bin/nv config save'', rc = 0, stdout = ''saved'',
         stderr = []\<rparr>],
      [])"
  by (simp add: eval_defs m_apply_def)

lemma run_m_yes:
  "run_nvue toy_device m_yes [] =
     (Inr (True, ([], ''set interface swp1''), [[]]),
      [\<lparr>site = DiffBefore, cmdline = ''/usr/bin/nv config diff'', rc = 0, stdout = [],
         stderr = []\<rparr>,
       \<lparr>site = Command, cmdline = ''/usr/bin/nv set interface swp1'', rc = 0, stdout = [],
         stderr = []\<rparr>,
       \<lparr>site = DiffAfter, cmdline = ''/usr/bin/nv config diff'', rc = 0,
         stdout = ''set interface swp1'' @ [CHR 0x0A], stderr = []\<rparr>],
      [''set interface swp1''])"
  by (simp add: eval_defs m_yes_def)

lemma run_m_atomic:
  "trace (run_nvue toy_device m_atomic []) =
     [\<lparr>site = Detach, cmdline = ''/usr/bin/nv config detach'', rc = 0, stdout = [],
        stderr = []\<rparr>,
      \<lparr>site = DiffBefore, cmdline = ''/usr/bin/nv config diff'', rc = 0, stdout = [],
        stderr = []\<rparr>,
      \<lparr>site = Command, cmdline = ''/usr/bin/nv set interface swp1'', rc = 0, stdout = [],
        stderr = []\<rparr>,
      \<lparr>site = DiffAfter, cmdline = ''/usr/bin/nv config diff'', rc = 0,
        stdout = ''set interface swp1'' @ [CHR 0x0A], stderr = []\<rparr>,
      \<lparr>site = Apply, cmdline = ''/usr/bin/nv config apply --assume-yes '', rc = 0,
        stdout = ''applied'', stderr = []\<rparr>,
      \<lparr>site = Save, cmdline = ''/usr/bin/nv config save'', rc = 0, stdout = ''saved'',
        stderr = []\<rparr>]"
  by (simp add: eval_defs m_atomic_def)

lemma run_m_atomic_no_save:
  "trace (run_nvue toy_device (atomic_expansion_no_save m_atomic) []) =
     [\<lparr>site = Detach, cmdline = ''/usr/bin/nv config detach'', rc = 0, stdout = [],
        stderr = []\<rparr>,
      \<lparr>site = DiffBefore, cmdline = ''/usr/bin/nv config diff'', rc = 0, stdout = [],
        stderr = []\<rparr>,
      \<lparr>site = Command, cmdline = ''/usr/bin/nv set interface swp1'', rc = 0, stdout = [],
        stderr = []\<rparr>,
      \<lparr>site = DiffAfter, cmdline = ''/usr/bin/nv config diff'', rc = 0,
        stdout = ''set interface swp1'' @ [CHR 0x0A], stderr = []\<rparr>,
      \<lparr>site = Apply, cmdline = ''/usr/bin/nv config apply --assume-yes '', rc = 0,
        stdout = ''applied'', stderr = []\<rparr>]"
  by (simp add: eval_defs m_atomic_def atomic_expansion_no_save_def)

lemma strip_diff: "strip (''set interface swp1'' @ [CHR 0x0A]) = ''set interface swp1''"
  by (simp add: strip_def is_space_def)

lemma run_m_none:
  "run_nvue toy_device m_none [''old''] = (Inl AttributeError, [], [''old''])"
  by (simp add: eval_defs m_none_def)

lemma run_m_show:
  "run_nvue toy_device m_show [''old''] =
     (Inr (False, (''old'', ''old''), [''status of interface swp1'']),
      [\<lparr>site = DiffBefore, cmdline = ''/usr/bin/nv config diff'', rc = 0,
         stdout = ''old'' @ [CHR 0x0A], stderr = []\<rparr>,
       \<lparr>site = Command, cmdline = ''/usr/bin/nv show interface swp1'', rc = 0,
         stdout = ''status of interface swp1'', stderr = []\<rparr>,
       \<lparr>site = DiffAfter, cmdline = ''/usr/bin/nv config diff'', rc = 0,
         stdout = ''old'' @ [CHR 0x0A], stderr = []\<rparr>],
      [''old''])"
  by (simp add: eval_defs m_show_def)

section \<open>Properties of the session controller\<close>

text \<open>
  C1, as stated, fails.  The check-mode request \<open>m_none\<close> has the parameters of a call
  without arguments, which the argument validation accepts: it has no command list and no
  template, its session ends while resolving the command list, and no detach command is
  executed.
\<close>

theorem C1_check_mode_counterexample:
  "check_mode m_none \<and> params m_none = with_defaults no_arguments \<and>
   \<not> check_mutually_exclusive mutually_exclusive no_arguments \<and>
   trace (run_nvue toy_device m_none [''old'']) = [] \<and>
   \<not> executed Detach (run_nvue toy_device m_none [''old'']) \<and>
   outcome (run_nvue toy_device m_none [''old'']) = Inl AttributeError"
proof -
  have p: "check_mode m_none" "params m_none = with_defaults no_arguments"
    by (simp_all add: m_none_def with_defaults_def no_arguments_def default_params_def)
  have v: "\<not> check_mutually_exclusive mutually_exclusive no_arguments"
    by (simp add: mutually_exclusive_pairs no_arguments_def)
  have e: "trace (run_nvue toy_device m_none [''old'']) = []"
    "\<not> executed Detach (run_nvue toy_device m_none [''old''])"
    "outcome (run_nvue toy_device m_none [''old'']) = Inl AttributeError"
    by (simp_all add: run_m_none trace_def outcome_def executed_def calls_at_def)
  from p v e show ?thesis by simp
qed

text \<open>
  C1, amended.  In check-mode, for a request that supplies a command source (a non-empty
  command list or a template, the precondition of command resolution), the first call of
  the session is the detach command \<open>/usr/bin/nv config detach\<close>, whatever the \<open>detach\<close>
  flag is, and neither the apply command nor the save command is executed, whatever the
  flags \<open>apply\<close>, \<open>save\<close>, \<open>atomic\<close> and \<open>confirm\<close> are.
\<close>

theorem C1_check_mode:
  assumes cm: "check_mode m"
    and src: "commands (params m) \<noteq> [] \<or> template (params m) \<noteq> None"
  shows "trace (run_nvue ex m d) \<noteq> [] \<and>
         site (hd (trace (run_nvue ex m d))) = Detach \<and>
         cmdline (hd (trace (run_nvue ex m d))) = ''/usr/bin/nv config detach'' \<and>
         \<not> executed Apply (run_nvue ex m d) \<and> \<not> executed Save (run_nvue ex m d)"
proof -
  from src have "\<exists>cmds. resolve_commands (params m) = Inr cmds"
    by (auto simp: resolve_commands_def)
  then obtain cmds where res: "resolve_commands (params m) = Inr cmds" ..
  let ?detach = "bind (command_helper ex Detach ''config detach'') (\<lambda>_. return ())"
  obtain c where c: "trace (command_helper ex Detach ''config detach'' d) = [c]"
    "site c = Detach" "cmdline c = ''/usr/bin/nv '' @ ''config detach''"
    using trace_command_helper [of ex Detach "''config detach''" d] by blast
  have first: "trace (?detach d) \<noteq> []" "hd (trace (?detach d)) = c"
    using trace_bind_hd [of "command_helper ex Detach ''config detach''" d "\<lambda>_. return ()"] c
    by simp_all
  obtain rest where run: "run_nvue ex m d = bind ?detach rest d"
    using cm by (simp add: run_nvue_def res lift_Inr bind_return_left Let_def)
  have "trace (run_nvue ex m d) \<noteq> []" "hd (trace (run_nvue ex m d)) = c"
    using trace_bind_hd [of ?detach d rest] first by (simp_all add: run)
  moreover have "\<not> executed Apply (run_nvue ex m d)" "\<not> executed Save (run_nvue ex m d)"
    using check_mode_sites [OF cm, of ex d] by (simp_all add: not_executed_iff list_all_iff)
  ultimately show ?thesis using c by simp
qed

theorem C1_check_mode_witness:
  "check_mode m_check \<and> apply_flag (params m_check) \<and> save (params m_check) \<and>
   \<not> detach (params m_check) \<and>
   commands (params m_check) = [''set interface swp1''] \<and>
   trace (run_nvue toy_device m_check [''old'']) \<noteq> [] \<and>
   site (hd (trace (run_nvue toy_device m_check [''old'']))) = Detach \<and>
   cmdline (hd (trace (run_nvue toy_device m_check [''old'']))) =
     ''/usr/bin/nv config detach'' \<and>
   \<not> executed Apply (run_nvue toy_device m_check [''old'']) \<and>
   \<not> executed Save (run_nvue toy_device m_check [''old'']) \<and>
   outcome (run_nvue toy_device m_check [''old'']) =
     Inr (True, ([], ''set interface swp1''), [[]])"
proof -
  have c: "commands (params m_check) = [''set interface swp1'']"
    by (simp add: m_check_def default_params_def)
  have h: "check_mode m_check"
    "commands (params m_check) \<noteq> [] \<or> template (params m_check) \<noteq> None"
    by (simp_all add: m_check_def default_params_def)
  have p: "apply_flag (params m_check)" "save (params m_check)" "\<not> detach (params m_check)"
    by (simp_all add: m_check_def default_params_def)
  have e: "outcome (run_nvue toy_device m_check [''old'']) =
     Inr (True, ([], ''set interface swp1''), [[]])"
    by (simp add: run_m_check outcome_def)
  from C1_check_mode [OF h, of toy_device "[''old'']"] h(1) c p e show ?thesis by simp
qed

text \<open>
  C2.  Whenever a call of the executor returns a non-zero exit status, whatever the place
  it is made from, it is the last call of the session, and the session ends with the
  failure report of that call: the message \<open>Failed on line '<command>'\<close> for the command
  that was run as \<open>/usr/bin/nv <command>\<close>, with the exit status, the stdout and the
  stderr of the call.  The outcome is then an error, not a result record.
\<close>

theorem C2_fail_fast:
  assumes i: "i < length (trace (run_nvue ex m d))"
    and nz: "rc (trace (run_nvue ex m d) ! i) \<noteq> 0"
  shows "Suc i = length (trace (run_nvue ex m d)) \<and>
         (\<exists>command. cmdline (trace (run_nvue ex m d) ! i) = ''/usr/bin/nv '' @ command \<and>
            outcome (run_nvue ex m d) =
              Inl (ExecutionFailure (''Failed on line '' @ [CHR 0x27] @ command @ [CHR 0x27])
                     (rc (trace (run_nvue ex m d) ! i))
                     (stdout (trace (run_nvue ex m d) ! i))
                     (stderr (trace (run_nvue ex m d) ! i))))"
proof -
  let ?x = "run_nvue ex m d"
  have ord: "orderly ?x" by (rule orderly_run_nvue)
  from i nz have bad: "\<not> (\<forall>c \<in> set (trace ?x). rc c = 0)"
    using nth_mem by blast
  with ord have fl: "is_failure (outcome ?x)"
    by (auto simp: orderly_def split: if_splits)
  with ord have ne: "trace ?x \<noteq> []"
    and zeros: "\<forall>c \<in> set (butlast (trace ?x)). rc c = 0"
    and pre: "take 12 (cmdline (last (trace ?x))) = ''/usr/bin/nv ''"
    and rep: "outcome ?x = Inl (report_of (last (trace ?x)))"
    by (simp_all add: orderly_def)
  have last_i: "Suc i = length (trace ?x)"
  proof (rule ccontr)
    assume "Suc i \<noteq> length (trace ?x)"
    with i have "i < length (butlast (trace ?x))" by simp
    then have "trace ?x ! i \<in> set (butlast (trace ?x))"
      by (metis nth_butlast nth_mem)
    with zeros nz show False by blast
  qed
  with ne have eq: "trace ?x ! i = last (trace ?x)"
    by (metis diff_Suc_1 last_conv_nth)
  define command where "command = drop 12 (cmdline (last (trace ?x)))"
  have c: "cmdline (last (trace ?x)) = ''/usr/bin/nv '' @ command"
    unfolding command_def
    using pre append_take_drop_id [of 12 "cmdline (last (trace ?x))"] by simp
  have "outcome ?x =
      Inl (ExecutionFailure (''Failed on line '' @ [CHR 0x27] @ command @ [CHR 0x27])
             (rc (last (trace ?x))) (stdout (last (trace ?x))) (stderr (last (trace ?x))))"
    unfolding rep report_of_def failed_on_line_def command_def by simp
  with c have "\<exists>command. cmdline (last (trace ?x)) = ''/usr/bin/nv '' @ command \<and>
      outcome ?x =
        Inl (ExecutionFailure (''Failed on line '' @ [CHR 0x27] @ command @ [CHR 0x27])
               (rc (last (trace ?x))) (stdout (last (trace ?x))) (stderr (last (trace ?x))))"
    by blast
  with last_i show ?thesis
    unfolding eq by (rule conjI)
qed

theorem C2_fail_fast_witness:
  "2 < length (trace (run_nvue toy_device m_fail [])) \<and>
   rc (trace (run_nvue toy_device m_fail []) ! 2) \<noteq> 0 \<and>
   cmdline (trace (run_nvue toy_device m_fail []) ! 2) = ''/usr/bin/nv bogus'' \<and>
   Suc 2 = length (trace (run_nvue toy_device m_fail [])) \<and>
   outcome (run_nvue toy_device m_fail []) =
     Inl (ExecutionFailure (''Failed on line '' @ [CHR 0x27] @ ''bogus'' @ [CHR 0x27])
            1 '''' ''Invalid command'')"
proof -
  have h: "2 < length (trace (run_nvue toy_device m_fail []))"
    "rc (trace (run_nvue toy_device m_fail []) ! 2) \<noteq> 0"
    by (simp_all add: run_m_fail trace_def)
  have e: "cmdline (trace (run_nvue toy_device m_fail []) ! 2) = ''/usr/bin/nv bogus''"
    "rc (trace (run_nvue toy_device m_fail []) ! 2) = 1"
    "stdout (trace (run_nvue toy_device m_fail []) ! 2) = ''''"
    "stderr (trace (run_nvue toy_device m_fail []) ! 2) = ''Invalid command''"
    by (simp_all add: run_m_fail trace_def)
  from C2_fail_fast [OF h] obtain command where
    l: "Suc 2 = length (trace (run_nvue toy_device m_fail []))"
    and c: "cmdline (trace (run_nvue toy_device m_fail []) ! 2) = ''/usr/bin/nv '' @ command"
    and o: "outcome (run_nvue toy_device m_fail []) =
      Inl (ExecutionFailure (''Failed on line '' @ [CHR 0x27] @ command @ [CHR 0x27])
             (rc (trace (run_nvue toy_device m_fail []) ! 2))
             (stdout (trace (run_nvue toy_device m_fail []) ! 2))
             (stderr (trace (run_nvue toy_device m_fail []) ! 2)))"
    by blast
  from c e(1) have "command = ''bogus''" by simp
  with o e have "outcome (run_nvue toy_device m_fail []) =
     Inl (ExecutionFailure (''Failed on line '' @ [CHR 0x27] @ ''bogus'' @ [CHR 0x27])
            1 '''' ''Invalid command'')"
    by simp
  with h e(1) l show ?thesis by simp
qed

text \<open>
  C3.  Outside check-mode the apply command is executed exactly when one of \<open>apply\<close>,
  \<open>confirm\<close> and \<open>atomic\<close> is true (the effective apply flag) and the second diff succeeded
  with a non-empty trimmed output (the snapshot \<open>after\<close>); it is run as
  \<open>/usr/bin/nv config apply --assume-yes\<close> followed by a space and the options.  For a
  session that returns a result, \<open>after\<close> is the trimmed output of the one second diff, and
  apply is executed exactly when \<open>after\<close> is non-empty and one of the three flags is true;
  when it is executed \<open>changed\<close> is true, whatever the two diffs are; it is executed at most
  once, and its trimmed output is in the output list, after the outputs of the commands,
  only when it is non-empty.
\<close>

theorem C3_apply_phase:
  assumes "\<not> check_mode m"
  shows "(executed Apply (run_nvue ex m d) \<longleftrightarrow>
            (apply_flag (params m) \<or> confirm (params m) \<or> atomic (params m)) \<and>
            (\<exists>c \<in> set (calls_at DiffAfter (run_nvue ex m d)).
               rc c = 0 \<and> strip (stdout c) \<noteq> [])) \<and>
         (\<forall>c \<in> set (calls_at Apply (run_nvue ex m d)).
            \<exists>opts. cmdline c = ''/usr/bin/nv config apply --assume-yes '' @ opts) \<and>
         (\<forall>changed before after output.
            outcome (run_nvue ex m d) = Inr (changed, (before, after), output) \<longrightarrow>
            (\<exists>ca. calls_at DiffAfter (run_nvue ex m d) = [ca] \<and> after = strip (stdout ca)) \<and>
            (executed Apply (run_nvue ex m d) \<longleftrightarrow>
               after \<noteq> [] \<and>
               (apply_flag (params m) \<or> confirm (params m) \<or> atomic (params m))) \<and>
            (executed Apply (run_nvue ex m d) \<longrightarrow> changed) \<and>
            length (calls_at Apply (run_nvue ex m d)) \<le> 1 \<and>
            output = map (\<lambda>c. strip (stdout c)) (calls_at Command (run_nvue ex m d)) @
                     outputs_at Apply (run_nvue ex m d) @ outputs_at Save (run_nvue ex m d))"
proof -
  let ?x = "run_nvue ex m d"
  let ?flag = "apply_flag (params m) \<or> confirm (params m) \<or> atomic (params m)"
  have fl: "do_apply_of (params m) = ?flag"
    by (rule do_apply_of_flags)
  have one: "executed Apply ?x \<longleftrightarrow>
          ?flag \<and> (\<exists>c \<in> set (calls_at DiffAfter ?x). rc c = 0 \<and> strip (stdout c) \<noteq> [])"
    using run_nvue_executed_Apply [of ex m d] assms unfolding fl by simp
  have two: "\<forall>c \<in> set (calls_at Apply ?x).
      \<exists>opts. cmdline c = ''/usr/bin/nv config apply --assume-yes '' @ opts"
    using apply_cmdline [of m ex d] by (simp add: calls_at_def list_all_iff)
  have three: "\<forall>changed before after output.
      outcome ?x = Inr (changed, (before, after), output) \<longrightarrow>
      (\<exists>ca. calls_at DiffAfter ?x = [ca] \<and> after = strip (stdout ca)) \<and>
      (executed Apply ?x \<longleftrightarrow> after \<noteq> [] \<and> ?flag) \<and>
      (executed Apply ?x \<longrightarrow> changed) \<and>
      length (calls_at Apply ?x) \<le> 1 \<and>
      output = map (\<lambda>c. strip (stdout c)) (calls_at Command ?x) @
               outputs_at Apply ?x @ outputs_at Save ?x"
  proof (intro allI impI)
    fix changed before after outp
    assume ok: "outcome ?x = Inr (changed, (before, after), outp)"
    from run_nvue_Inr_diffs [OF ok] have
      d: "\<exists>ca. calls_at DiffAfter ?x = [ca] \<and> after = strip (stdout ca)"
      by blast
    from run_nvue_Inr(2,3,5,6) [OF ok] assms have
      "(executed Apply ?x \<longleftrightarrow> after \<noteq> [] \<and> ?flag) \<and>
       (executed Apply ?x \<longrightarrow> changed) \<and>
       length (calls_at Apply ?x) \<le> 1 \<and>
       outp = map (\<lambda>c. strip (stdout c)) (calls_at Command ?x) @
              outputs_at Apply ?x @ outputs_at Save ?x"
      unfolding fl by simp
    with d show "(\<exists>ca. calls_at DiffAfter ?x = [ca] \<and> after = strip (stdout ca)) \<and>
      (executed Apply ?x \<longleftrightarrow> after \<noteq> [] \<and> ?flag) \<and>
      (executed Apply ?x \<longrightarrow> changed) \<and>
      length (calls_at Apply ?x) \<le> 1 \<and>
      outp = map (\<lambda>c. strip (stdout c)) (calls_at Command ?x) @
             outputs_at Apply ?x @ outputs_at Save ?x"
      by (rule conjI)
  qed
  from one two three show ?thesis by (intro conjI)
qed

theorem C3_apply_phase_witness:
  "\<not> check_mode m_apply \<and> \<not> apply_flag (params m_apply) \<and> confirm (params m_apply) \<and>
   \<not> atomic (params m_apply) \<and>
   executed Apply (run_nvue toy_device m_apply []) \<and>
   calls_at DiffAfter (run_nvue toy_device m_apply []) =
     [\<lparr>site = DiffAfter, cmdline = ''/usr/bin/nv config diff'', rc = 0,
        stdout = ''set interface swp1'' @ [CHR 0x0A], stderr = []\<rparr>] \<and>
   calls_at Apply (run_nvue toy_device m_apply []) =
     [\<lparr>site = Apply, cmdline = ''/usr/bin/nv config apply --assume-yes  --confirm 10m'',
        rc = 0, stdout = ''applied'', stderr = []\<rparr>] \<and>
   outcome (run_nvue toy_device m_apply []) =
     Inr (True, ([], ''set interface swp1''), [[], ''applied'', ''saved'']) \<and>
   calls_at Command (run_nvue toy_device m_apply []) =
     [\<lparr>site = Command, cmdline = ''/usr/bin/nv set interface swp1'', rc = 0, stdout = [],
        stderr = []\<rparr>] \<and>
   outputs_at Apply (run_nvue toy_device m_apply []) = [''applied''] \<and>
   outputs_at Save (run_nvue toy_device m_apply []) = [''saved'']"
proof -
  have h: "\<not> check_mode m_apply"
    by (simp add: m_apply_def)
  have p: "\<not> apply_flag (params m_apply)" "confirm (params m_apply)"
    "\<not> atomic (params m_apply)"
    by (simp_all add: m_apply_def default_params_def)
  have e: "calls_at Command (run_nvue toy_device m_apply []) =
       [\<lparr>site = Command, cmdline = ''/usr/bin/nv set interface swp1'', rc = 0, stdout = [],
          stderr = []\<rparr>]"
    "outputs_at Apply (run_nvue toy_device m_apply []) = [''applied'']"
    "outputs_at Save (run_nvue toy_device m_apply []) = [''saved'']"
    "outcome (run_nvue toy_device m_apply []) =
       Inr (True, ([], ''set interface swp1''), [[], ''applied'', ''saved''])"
    "calls_at DiffAfter (run_nvue toy_device m_apply []) =
       [\<lparr>site = DiffAfter, cmdline = ''/usr/bin/nv config diff'', rc = 0,
          stdout = ''set interface swp1'' @ [CHR 0x0A], stderr = []\<rparr>]"
    "calls_at Apply (run_nvue toy_device m_apply []) =
       [\<lparr>site = Apply, cmdline = ''/usr/bin/nv config apply --assume-yes  --confirm 10m'',
          rc = 0, stdout = ''applied'', stderr = []\<rparr>]"
    by (simp_all add: run_m_apply outcome_def trace_def calls_at_def outputs_at_def
        strip_def is_space_def)
  from C3_apply_phase [OF h, of toy_device "[]"] e(4) p
  have "executed Apply (run_nvue toy_device m_apply [])"
    by blast
  with h p e show ?thesis by simp
qed

text \<open>
  C4.  When a session returns a result and neither the apply command nor the save command
  was executed, the session made exactly the detach call if any, one diff, the commands
  and one more diff, in this order; \<open>before\<close> and \<open>after\<close> are the trimmed outputs of the
  two diffs, and \<open>changed\<close> is their inequality as strings; so it is false when they are
  equal.
\<close>

theorem C4_changed_is_diff_inequality:
  assumes "outcome (run_nvue ex m d) = Inr (changed, (before, after), output)"
    and "\<not> executed Apply (run_nvue ex m d)" and "\<not> executed Save (run_nvue ex m d)"
  shows "\<exists>cb ca.
           calls_at DiffBefore (run_nvue ex m d) = [cb] \<and>
           calls_at DiffAfter (run_nvue ex m d) = [ca] \<and>
           cmdline cb = ''/usr/bin/nv config diff'' \<and>
           cmdline ca = ''/usr/bin/nv config diff'' \<and>
           trace (run_nvue ex m d) =
             calls_at Detach (run_nvue ex m d) @ cb # calls_at Command (run_nvue ex m d) @ [ca] \<and>
           before = strip (stdout cb) \<and> after = strip (stdout ca) \<and>
           changed = (strip (stdout cb) \<noteq> strip (stdout ca)) \<and>
           changed = (before \<noteq> after)"
proof -
  let ?x = "run_nvue ex m d"
  from run_nvue_Inr_diffs [OF assms(1)] obtain cb ca where
    c: "calls_at DiffBefore ?x = [cb]" "calls_at DiffAfter ?x = [ca]"
      "cmdline cb = ''/usr/bin/nv config diff''" "cmdline ca = ''/usr/bin/nv config diff''"
    and ba: "before = strip (stdout cb)" "after = strip (stdout ca)"
    and t: "trace ?x = calls_at Detach ?x @ cb # calls_at Command ?x @
              ca # calls_at Apply ?x @ calls_at Save ?x"
    by blast
  from assms(2,3) have none: "calls_at Apply ?x = []" "calls_at Save ?x = []"
    by (simp_all add: executed_def)
  have t': "trace ?x = calls_at Detach ?x @ cb # calls_at Command ?x @ [ca]"
    using t unfolding none by simp
  have ch: "changed = (before \<noteq> after)"
    using run_nvue_Inr(5) [OF assms(1)] assms(2,3) by simp
  then have ch': "changed = (strip (stdout cb) \<noteq> strip (stdout ca))"
    unfolding ba .
  from c t' ba ch' ch show ?thesis by blast
qed

theorem C4_changed_is_diff_inequality_witness:
  "outcome (run_nvue toy_device m_show [''old'']) =
     Inr (False, (''old'', ''old''), [''status of interface swp1'']) \<and>
   \<not> executed Apply (run_nvue toy_device m_show [''old'']) \<and>
   \<not> executed Save (run_nvue toy_device m_show [''old'']) \<and>
   trace (run_nvue toy_device m_show [''old'']) =
     [\<lparr>site = DiffBefore, cmdline = ''/usr/bin/nv config diff'', rc = 0,
        stdout = ''old'' @ [CHR 0x0A], stderr = []\<rparr>,
      \<lparr>site = Command, cmdline = ''/usr/bin/nv show interface swp1'', rc = 0,
        stdout = ''status of interface swp1'', stderr = []\<rparr>,
      \<lparr>site = DiffAfter, cmdline = ''/usr/bin/nv config diff'', rc = 0,
        stdout = ''old'' @ [CHR 0x0A], stderr = []\<rparr>] \<and>
   strip (''old'' @ [CHR 0x0A]) = ''old'' \<and>
   outcome (run_nvue toy_device m_yes []) =
     Inr (True, ([], ''set interface swp1''), [[]]) \<and>
   \<not> executed Apply (run_nvue toy_device m_yes []) \<and>
   \<not> executed Save (run_nvue toy_device m_yes []) \<and>
   calls_at DiffBefore (run_nvue toy_device m_yes []) =
     [\<lparr>site = DiffBefore, cmdline = ''/usr/bin/nv config diff'', rc = 0, stdout = [],
        stderr = []\<rparr>] \<and>
   calls_at DiffAfter (run_nvue toy_device m_yes []) =
     [\<lparr>site = DiffAfter, cmdline = ''/usr/bin/nv config diff'', rc = 0,
        stdout = ''set interface swp1'' @ [CHR 0x0A], stderr = []\<rparr>]"
proof -
  have h: "outcome (run_nvue toy_device m_show [''old'']) =
      Inr (False, (''old'', ''old''), [''status of interface swp1''])"
    "\<not> executed Apply (run_nvue toy_device m_show [''old''])"
    "\<not> executed Save (run_nvue toy_device m_show [''old''])"
    by (simp_all add: run_m_show outcome_def trace_def calls_at_def executed_def)
  have t: "trace (run_nvue toy_device m_show [''old'']) =
     [\<lparr>site = DiffBefore, cmdline = ''/usr/bin/nv config diff'', rc = 0,
        stdout = ''old'' @ [CHR 0x0A], stderr = []\<rparr>,
      \<lparr>site = Command, cmdline = ''/usr/bin/nv show interface swp1'', rc = 0,
        stdout = ''status of interface swp1'', stderr = []\<rparr>,
      \<lparr>site = DiffAfter, cmdline = ''/usr/bin/nv config diff'', rc = 0,
        stdout = ''old'' @ [CHR 0x0A], stderr = []\<rparr>]"
    by (simp add: run_m_show trace_def)
  have s: "strip (''old'' @ [CHR 0x0A]) = ''old''"
    by (simp add: strip_def is_space_def)
  have g: "outcome (run_nvue toy_device m_yes []) =
      Inr (True, ([], ''set interface swp1''), [[]])"
    "\<not> executed Apply (run_nvue toy_device m_yes [])"
    "\<not> executed Save (run_nvue toy_device m_yes [])"
    by (simp_all add: run_m_yes outcome_def trace_def calls_at_def executed_def)
  have c: "calls_at DiffBefore (run_nvue toy_device m_yes []) =
     [\<lparr>site = DiffBefore, cmdline = ''/usr/bin/nv config diff'', rc = 0, stdout = [],
        stderr = []\<rparr>]"
    "calls_at DiffAfter (run_nvue toy_device m_yes []) =
     [\<lparr>site = DiffAfter, cmdline = ''/usr/bin/nv config diff'', rc = 0,
        stdout = ''set interface swp1'' @ [CHR 0x0A], stderr = []\<rparr>]"
    by (simp_all add: run_m_yes trace_def calls_at_def)
  note C4_changed_is_diff_inequality [OF h] C4_changed_is_diff_inequality [OF g]
  with h t s g c show ?thesis by simp
qed

text \<open>
  C5.  When a session returns a result, the commands that were run are the resolved
  commands that are not blank after trimming, trimmed, in their order; the output list is
  the trimmed stdout of each of them in that order, followed by the trimmed output of
  apply when apply ran with a non-empty one, followed by the trimmed output of save when
  save ran with a non-empty one.  Its length is the number of non-blank commands plus one
  for each of these two outputs that is present.
\<close>

theorem C5_output_length:
  assumes ok: "outcome (run_nvue ex m d) = Inr (changed, diff, output)"
  shows "\<exists>cmds. resolve_commands (params m) = Inr cmds \<and>
           map cmdline (calls_at Command (run_nvue ex m d)) =
             map (\<lambda>l. ''/usr/bin/nv '' @ strip l) (filter (\<lambda>l. strip l \<noteq> []) cmds) \<and>
           output = map (\<lambda>c. strip (stdout c)) (calls_at Command (run_nvue ex m d)) @
                    outputs_at Apply (run_nvue ex m d) @ outputs_at Save (run_nvue ex m d) \<and>
           length output =
             length (filter (\<lambda>l. strip l \<noteq> []) cmds) +
             (if outputs_at Apply (run_nvue ex m d) = [] then 0 else 1) +
             (if outputs_at Save (run_nvue ex m d) = [] then 0 else 1)"
proof -
  let ?x = "run_nvue ex m d"
  obtain before after where diff: "diff = (before, after)" by (cases diff)
  note ok' = ok [unfolded diff]
  from run_nvue_Inr(1) [OF ok'] obtain cmds where
    r: "resolve_commands (params m) = Inr cmds"
    and c: "map cmdline (calls_at Command ?x) =
              map (\<lambda>l. ''/usr/bin/nv '' @ strip l) (filter (\<lambda>l. strip l \<noteq> []) cmds)"
    by blast
  have out: "output = map (\<lambda>c. strip (stdout c)) (calls_at Command ?x) @
               outputs_at Apply ?x @ outputs_at Save ?x"
    by (rule run_nvue_Inr(2) [OF ok'])
  have n: "length (calls_at Command ?x) = length (filter (\<lambda>l. strip l \<noteq> []) cmds)"
    using arg_cong [OF c, of length] by simp
  have "length (outputs_at Apply ?x) \<le> length (calls_at Apply ?x)"
    "length (outputs_at Save ?x) \<le> length (calls_at Save ?x)"
    by (simp_all add: outputs_at_def le_trans [OF length_filter_le])
  with run_nvue_Inr(3,4) [OF ok'] have
    "length (outputs_at Apply ?x) \<le> 1" "length (outputs_at Save ?x) \<le> 1"
    by simp_all
  then have a: "length (outputs_at Apply ?x) = (if outputs_at Apply ?x = [] then 0 else 1)"
    and s: "length (outputs_at Save ?x) = (if outputs_at Save ?x = [] then 0 else 1)"
    by (auto simp: le_Suc_eq)
  have "length output = length (calls_at Command ?x) + length (outputs_at Apply ?x) +
          length (outputs_at Save ?x)"
    by (subst out) simp
  with a s n have "length output =
      length (filter (\<lambda>l. strip l \<noteq> []) cmds) +
      (if outputs_at Apply ?x = [] then 0 else 1) + (if outputs_at Save ?x = [] then 0 else 1)"
    by simp
  with r c out show ?thesis by blast
qed

theorem C5_output_length_witness:
  "outcome (run_nvue toy_device m_apply []) =
     Inr (True, ([], ''set interface swp1''), [[], ''applied'', ''saved'']) \<and>
   (\<exists>cmds. resolve_commands (params m_apply) = Inr cmds \<and>
      cmds = [''set interface swp1'', ''  ''] \<and>
      length (filter (\<lambda>l. strip l \<noteq> []) cmds) = 1 \<and>
      length [[], ''applied'', ''saved''] =
        length (filter (\<lambda>l. strip l \<noteq> []) cmds) +
        (if outputs_at Apply (run_nvue toy_device m_apply []) = [] then 0 else 1) +
        (if outputs_at Save (run_nvue toy_device m_apply []) = [] then 0 else 1))"
proof -
  have h: "outcome (run_nvue toy_device m_apply []) =
     Inr (True, ([], ''set interface swp1''), [[], ''applied'', ''saved''])"
    by (simp add: run_m_apply outcome_def)
  have r: "resolve_commands (params m_apply) = Inr [''set interface swp1'', ''  '']"
    by (simp add: resolve_commands_def m_apply_def default_params_def)
  have n: "length (filter (\<lambda>l. strip l \<noteq> []) [''set interface swp1'', ''  '']) = 1"
    by (simp add: strip_def is_space_def)
  from C5_output_length [OF h] obtain cmds where
    c: "resolve_commands (params m_apply) = Inr cmds"
    and l: "length [[], ''applied'', ''saved''] =
        length (filter (\<lambda>l. strip l \<noteq> []) cmds) +
        (if outputs_at Apply (run_nvue toy_device m_apply []) = [] then 0 else 1) +
        (if outputs_at Save (run_nvue toy_device m_apply []) = [] then 0 else 1)"
    by blast
  from c r have cmds: "cmds = [''set interface swp1'', ''  '']"
    by (simp only: sum.inject)
  from n have n': "length (filter (\<lambda>l. strip l \<noteq> []) cmds) = 1"
    by (simp only: cmds)
  from c cmds n' l have "\<exists>cmds. resolve_commands (params m_apply) = Inr cmds \<and>
      cmds = [''set interface swp1'', ''  ''] \<and>
      length (filter (\<lambda>l. strip l \<noteq> []) cmds) = 1 \<and>
      length [[], ''applied'', ''saved''] =
        length (filter (\<lambda>l. strip l \<noteq> []) cmds) +
        (if outputs_at Apply (run_nvue toy_device m_apply []) = [] then 0 else 1) +
        (if outputs_at Save (run_nvue toy_device m_apply []) = [] then 0 else 1)"
    by blast
  with h show ?thesis by (rule conjI)
qed

text \<open>
  C6.  With \<open>confirm\<close> true the effective apply flag is true, whatever \<open>apply\<close> is, and the
  command line of every apply call is \<open>/usr/bin/nv config apply --assume-yes\<close>, a space,
  then \<open> --confirm <confirm_timeout>\<close>, possibly followed by more options.
\<close>

theorem C6_confirm_forces_apply:
  assumes "confirm (params m)"
  shows "do_apply_of (params m) \<and>
         (\<forall>c \<in> set (calls_at Apply (run_nvue ex m d)).
            \<exists>rest. cmdline c =
              ''/usr/bin/nv config apply --assume-yes '' @ '' --confirm '' @
              confirm_timeout (params m) @ rest)"
proof -
  have "do_apply_of (params m)"
    using assms by (simp add: do_apply_of_def)
  moreover have "\<exists>rest. apply_options_of (params m) =
      '' --confirm '' @ confirm_timeout (params m) @ rest"
    using assms by (simp add: apply_options_of_def Let_def)
  then obtain rest where
    "apply_options_of (params m) = '' --confirm '' @ confirm_timeout (params m) @ rest" ..
  with apply_cmdline [of m ex d] have
    "\<forall>c \<in> set (calls_at Apply (run_nvue ex m d)).
       cmdline c = ''/usr/bin/nv config apply --assume-yes '' @ '' --confirm '' @
         confirm_timeout (params m) @ rest"
    by (simp add: calls_at_def list_all_iff)
  ultimately show ?thesis by blast
qed

theorem C6_confirm_forces_apply_witness:
  "confirm (params m_apply) \<and> \<not> apply_flag (params m_apply) \<and>
   confirm_timeout (params m_apply) = ''10m'' \<and> do_apply_of (params m_apply) \<and>
   calls_at Apply (run_nvue toy_device m_apply []) =
     [\<lparr>site = Apply, cmdline = ''/usr/bin/nv config apply --assume-yes  --confirm 10m'',
        rc = 0, stdout = ''applied'', stderr = []\<rparr>] \<and>
   (\<exists>rest. ''/usr/bin/nv config apply --assume-yes  --confirm 10m'' =
      ''/usr/bin/nv config apply --assume-yes '' @ '' --confirm '' @
      confirm_timeout (params m_apply) @ rest)"
proof -
  have h: "confirm (params m_apply)"
    by (simp add: m_apply_def default_params_def)
  have p: "\<not> apply_flag (params m_apply)" "confirm_timeout (params m_apply) = ''10m''"
    by (simp_all add: m_apply_def default_params_def)
  have e: "calls_at Apply (run_nvue toy_device m_apply []) =
     [\<lparr>site = Apply, cmdline = ''/usr/bin/nv config apply --assume-yes  --confirm 10m'',
        rc = 0, stdout = ''applied'', stderr = []\<rparr>]"
    by (simp add: run_m_apply trace_def calls_at_def)
  from C6_confirm_forces_apply [OF h, of toy_device "[]"] have
    a: "do_apply_of (params m_apply)"
    and "\<forall>c \<in> set (calls_at Apply (run_nvue toy_device m_apply [])).
      \<exists>rest. cmdline c =
        ''/usr/bin/nv config apply --assume-yes '' @ '' --confirm '' @
        confirm_timeout (params m_apply) @ rest"
    by blast+
  then have "\<exists>rest. ''/usr/bin/nv config apply --assume-yes  --confirm 10m'' =
      ''/usr/bin/nv config apply --assume-yes '' @ '' --confirm '' @
      confirm_timeout (params m_apply) @ rest"
    unfolding e by simp
  with h p e a show ?thesis by blast
qed

text \<open>
  C7, as stated, fails.  The request \<open>m_atomic\<close> has \<open>atomic\<close> and \<open>save\<close> true: its session
  runs the save command, and the session of the same request with \<open>atomic\<close> false,
  \<open>detach\<close> and \<open>apply\<close> true and \<open>save\<close> false does not.
\<close>

theorem C7_atomic_counterexample:
  "atomic (params m_atomic) \<and>
   executed Save (run_nvue toy_device m_atomic []) \<and>
   \<not> executed Save (run_nvue toy_device (atomic_expansion_no_save m_atomic) []) \<and>
   run_nvue toy_device m_atomic [] \<noteq>
     run_nvue toy_device (atomic_expansion_no_save m_atomic) []"
proof -
  have a: "atomic (params m_atomic)"
    by (simp add: m_atomic_def default_params_def)
  have s: "executed Save (run_nvue toy_device m_atomic [])"
    by (simp add: executed_def calls_at_def run_m_atomic)
  have n: "\<not> executed Save (run_nvue toy_device (atomic_expansion_no_save m_atomic) [])"
    by (simp add: executed_def calls_at_def run_m_atomic_no_save)
  from s n have "run_nvue toy_device m_atomic [] \<noteq>
     run_nvue toy_device (atomic_expansion_no_save m_atomic) []"
    by metis
  with a s n show ?thesis by simp
qed

text \<open>
  C7, amended.  With \<open>atomic\<close> true a session is the same (calls, result and device state)
  as the session of the request with \<open>atomic\<close> false, \<open>detach\<close> true and \<open>apply\<close> true and
  every other parameter, \<open>save\<close> included, unchanged.
\<close>

theorem C7_atomic_expansion:
  assumes "atomic (params m)"
  shows "run_nvue ex m d = run_nvue ex (atomic_expansion m) d"
proof -
  have "resolve_commands (params (atomic_expansion m)) = resolve_commands (params m)"
    "apply_options_of (params (atomic_expansion m)) = apply_options_of (params m)"
    "save (params (atomic_expansion m)) = save (params m)"
    "check_mode (atomic_expansion m) = check_mode m"
    by (simp_all add: atomic_expansion_def resolve_commands_def apply_options_of_def)
  moreover from assms have
    "do_apply_of (params (atomic_expansion m)) = do_apply_of (params m)"
    "do_detach_of (params (atomic_expansion m)) = do_detach_of (params m)"
    by (simp_all add: atomic_expansion_def do_apply_of_def do_detach_of_def)
  ultimately have "run_nvue ex (atomic_expansion m) = run_nvue ex m"
    by (simp only: run_nvue_def)
  then show ?thesis by simp
qed

theorem C7_atomic_expansion_witness:
  "atomic (params m_atomic) \<and> save (params m_atomic) \<and>
   \<not> atomic (params (atomic_expansion m_atomic)) \<and>
   detach (params (atomic_expansion m_atomic)) \<and>
   apply_flag (params (atomic_expansion m_atomic)) \<and>
   save (params (atomic_expansion m_atomic)) \<and>
   run_nvue toy_device m_atomic [] = run_nvue toy_device (atomic_expansion m_atomic) []"
proof -
  have h: "atomic (params m_atomic)"
    by (simp add: m_atomic_def default_params_def)
  have p: "save (params m_atomic)" "\<not> atomic (params (atomic_expansion m_atomic))"
    "detach (params (atomic_expansion m_atomic))"
    "apply_flag (params (atomic_expansion m_atomic))"
    "save (params (atomic_expansion m_atomic))"
    by (simp_all add: m_atomic_def default_params_def atomic_expansion_def)
  from C7_atomic_expansion [OF h, of toy_device "[]"] h p show ?thesis by simp
qed

text \<open>
  C8.  A request that supplies both \<open>commands\<close> and \<open>template\<close>, or has both \<open>apply\<close> and
  \<open>atomic\<close> true, or \<open>atomic\<close> true together with \<open>detach\<close>, \<open>confirm\<close>, \<open>confirm_yes\<close> or
  \<open>confirm_no\<close>, or two of \<open>confirm\<close>, \<open>confirm_yes\<close> and \<open>confirm_no\<close> true, is rejected
  by the argument validation: no call of the executor is made and the device is untouched.
\<close>

theorem C8_mutual_exclusion:
  assumes "(arg_commands a \<noteq> None \<and> arg_template a \<noteq> None) \<or>
           (arg_apply a = Some True \<and> arg_atomic a = Some True) \<or>
           (arg_atomic a = Some True \<and> arg_detach a = Some True) \<or>
           (arg_atomic a = Some True \<and> arg_confirm a = Some True) \<or>
           (arg_atomic a = Some True \<and> arg_confirm_yes a = Some True) \<or>
           (arg_atomic a = Some True \<and> arg_confirm_no a = Some True) \<or>
           (arg_confirm a = Some True \<and> arg_confirm_yes a = Some True) \<or>
           (arg_confirm a = Some True \<and> arg_confirm_no a = Some True) \<or>
           (arg_confirm_yes a = Some True \<and> arg_confirm_no a = Some True)"
  shows "main ex a check d = (Inl MutuallyExclusive, [], d)"
proof -
  have "check_mutually_exclusive mutually_exclusive a \<longleftrightarrow>
      (arg_commands a \<noteq> None \<and> arg_template a \<noteq> None) \<or>
      (arg_apply a \<noteq> None \<and> arg_atomic a \<noteq> None) \<or>
      (arg_confirm a \<noteq> None \<and> arg_atomic a \<noteq> None) \<or>
      (arg_confirm_no a \<noteq> None \<and> arg_atomic a \<noteq> None) \<or>
      (arg_confirm_yes a \<noteq> None \<and> arg_atomic a \<noteq> None) \<or>
      (arg_confirm_no a \<noteq> None \<and> arg_confirm_yes a \<noteq> None) \<or>
      (arg_confirm a \<noteq> None \<and> arg_confirm_yes a \<noteq> None) \<or>
      (arg_confirm a \<noteq> None \<and> arg_confirm_no a \<noteq> None) \<or>
      (arg_detach a \<noteq> None \<and> arg_atomic a \<noteq> None)"
    by (simp add: mutually_exclusive_pairs)
  with assms have "check_mutually_exclusive mutually_exclusive a"
    by blast
  then show ?thesis
    by (simp add: main_def raise_def)
qed

theorem C8_mutual_exclusion_witness:
  "arg_apply args_apply_atomic = Some True \<and> arg_atomic args_apply_atomic = Some True \<and>
   main toy_device args_apply_atomic False [] = (Inl MutuallyExclusive, [], [])"
proof -
  have h: "arg_apply args_apply_atomic = Some True \<and> arg_atomic args_apply_atomic = Some True"
    by (simp add: args_apply_atomic_def no_arguments_def)
  then have "(arg_commands args_apply_atomic \<noteq> None \<and> arg_template args_apply_atomic \<noteq> None) \<or>
           (arg_apply args_apply_atomic = Some True \<and> arg_atomic args_apply_atomic = Some True) \<or>
           (arg_atomic args_apply_atomic = Some True \<and> arg_detach args_apply_atomic = Some True) \<or>
           (arg_atomic args_apply_atomic = Some True \<and> arg_confirm args_apply_atomic = Some True) \<or>
           (arg_atomic args_apply_atomic = Some True \<and>
            arg_confirm_yes args_apply_atomic = Some True) \<or>
           (arg_atomic args_apply_atomic = Some True \<and>
            arg_confirm_no args_apply_atomic = Some True) \<or>
           (arg_confirm args_apply_atomic = Some True \<and>
            arg_confirm_yes args_apply_atomic = Some True) \<or>
           (arg_confirm args_apply_atomic = Some True \<and>
            arg_confirm_no args_apply_atomic = Some True) \<or>
           (arg_confirm_yes args_apply_atomic = Some True \<and>
            arg_confirm_no args_apply_atomic = Some True)"
    by blast
  from C8_mutual_exclusion [OF this, of toy_device False "[]"] h show ?thesis by simp
qed

text \<open>
  C9.  The request without any argument passes the argument validation; its command list
  defaults to the empty list and its template to \<open>None\<close>, and the session ends with an
  \<open>AttributeError\<close> while resolving the command list: no call of the executor is made, and
  the error is not an \<open>ExecutionFailure\<close>.
\<close>

theorem C9_no_command_source_crashes:
  "\<not> check_mutually_exclusive mutually_exclusive no_arguments \<and>
   commands (with_defaults no_arguments) = [] \<and>
   template (with_defaults no_arguments) = None \<and>
   main ex no_arguments check d = (Inl AttributeError, [], d)"
proof -
  have v: "\<not> check_mutually_exclusive mutually_exclusive no_arguments"
    by (simp add: check_mutually_exclusive_def mutually_exclusive_def supplied_def
        no_arguments_def)
  have p: "commands (with_defaults no_arguments) = []"
    "template (with_defaults no_arguments) = None"
    by (simp_all add: with_defaults_def no_arguments_def)
  then have "resolve_commands (with_defaults no_arguments) = Inl AttributeError"
    by (simp add: resolve_commands_def)
  then have "run_nvue ex \<lparr>params = with_defaults no_arguments, check_mode = check\<rparr> =
      raise AttributeError"
    by (simp add: run_nvue_def lift_Inl bind_raise_left)
  with v have "main ex no_arguments check d = (Inl AttributeError, [], d)"
    by (simp add: main_def bind_raise_left raise_def)
  with v p show ?thesis by simp
qed



end
